theory Spec2Isabelle
  imports Main "HOL-Library.Sublist" "HOL-Library.Multiset"
begin

section \<open>The key-value repository layer of \<^verbatim>\<open>src/db.ts\<close>\<close>

text \<open>
  The module stores cookies, API keys, request logs and two settings records in one
  backend table \<^verbatim>\<open>kv_data (k: string, v: jsonb)\<close>. Every function of the module is
  embedded below under its own name (a static method \<^verbatim>\<open>C.m\<close> as \<open>C_m\<close>).

  Scope of the embedding:
  \<^item> JavaScript numbers are integers (\<^verbatim>\<open>Date.now()\<close>, counters, timestamps);
  \<^item> the backend answers every request: a lost connection is outside the model, while the
    error that \<^verbatim>\<open>single()\<close> reports for no row or several rows is modelled (\<open>kvGet\<close> then
    returns null);
  \<^item> \<^verbatim>\<open>types.ts\<close> and \<^verbatim>\<open>config.ts\<close> are not part of the sources: the entity types
    carry the fields that \<^verbatim>\<open>db.ts\<close> reads and writes, and the configuration is a
    parameter \<open>cfg\<close> of every function that reads it.
\<close>

subsection \<open>Entities (\<^verbatim>\<open>types.ts\<close>, as used by \<^verbatim>\<open>db.ts\<close>)\<close>

text \<open>
  Modelled from the spec: the type declarations of \<^verbatim>\<open>types.ts\<close> are missing. The fields
  of \<open>Cookie\<close>, \<open>ApiKey\<close> and \<open>RequestLog\<close> are those of section 3 of the specification;
  they are the fields that \<^verbatim>\<open>db.ts\<close> reads and writes. A field \<open>f\<close> of \<open>Cookie\<close> is \<open>c_f\<close>, of
  \<open>ApiKey\<close> \<open>k_f\<close> and of \<open>RequestLog\<close> \<open>l_f\<close>.
\<close>

record Cookie =
  c_id :: string
  c_value :: string
  c_isValid :: bool
  c_failCount :: int
  c_isDefault :: bool
  c_createdAt :: int
  c_updatedAt :: int

text \<open>\<^verbatim>\<open>Omit<Cookie, "id" | "createdAt" | "updatedAt">\<close>\<close>

record CookieInput =
  ci_value :: string
  ci_isValid :: bool
  ci_failCount :: int
  ci_isDefault :: bool

text \<open>\<^verbatim>\<open>Partial<Cookie>\<close>: every field may be absent.\<close>

record CookiePatch =
  cp_id :: "string option"
  cp_value :: "string option"
  cp_isValid :: "bool option"
  cp_failCount :: "int option"
  cp_isDefault :: "bool option"
  cp_createdAt :: "int option"
  cp_updatedAt :: "int option"

record ApiKey =
  k_id :: string
  k_key :: string
  k_isEnabled :: bool
  k_isDefault :: bool
  k_createdAt :: int
  k_requestCount :: int

text \<open>\<^verbatim>\<open>Omit<ApiKey, "id" | "createdAt" | "requestCount">\<close>\<close>

record ApiKeyInput =
  ki_key :: string
  ki_isEnabled :: bool
  ki_isDefault :: bool

text \<open>\<^verbatim>\<open>Partial<ApiKey>\<close>\<close>

record ApiKeyPatch =
  kp_id :: "string option"
  kp_key :: "string option"
  kp_isEnabled :: "bool option"
  kp_isDefault :: "bool option"
  kp_createdAt :: "int option"
  kp_requestCount :: "int option"

text \<open>A request log: \<open>id\<close>, \<open>timestamp\<close>, \<open>path\<close> and further metadata fields.\<close>

record RequestLog =
  l_id :: string
  l_timestamp :: int
  l_path :: string
  l_meta :: "(string \<times> string) list"

text \<open>\<^verbatim>\<open>Omit<RequestLog, "id">\<close>\<close>

record RequestLogInput =
  li_timestamp :: int
  li_path :: string
  li_meta :: "(string \<times> string) list"

text \<open>
  The fields of \<^verbatim>\<open>SystemSettings\<close> and \<^verbatim>\<open>ModelMapping\<close> are not visible in
  \<^verbatim>\<open>db.ts\<close>; both are plain objects, modelled as lists of properties in insertion order.
\<close>

datatype jsval = JStr string | JNum int | JBool bool

type_synonym jsobj = "(string \<times> jsval) list"
type_synonym SystemSettings = jsobj
type_synonym ModelMapping = jsobj

text \<open>The \<^verbatim>\<open>jsonb\<close> column \<open>v\<close>: one value of one of the stored shapes.\<close>

datatype jsonb =
    VCookie Cookie
  | VApiKey ApiKey
  | VLog RequestLog
  | VSettings SystemSettings
  | VModels "ModelMapping list"

text \<open>
  The casts \<^verbatim>\<open>row.v as T\<close> and \<^verbatim>\<open>kvGet<T>\<close>. TypeScript does not check them; the model reads
  a value of another shape as no value of type \<open>T\<close>.
\<close>

fun asCookie :: "jsonb \<Rightarrow> Cookie option" where
  "asCookie (VCookie c) = Some c"
| "asCookie _ = None"

fun asApiKey :: "jsonb \<Rightarrow> ApiKey option" where
  "asApiKey (VApiKey a) = Some a"
| "asApiKey _ = None"

fun asLog :: "jsonb \<Rightarrow> RequestLog option" where
  "asLog (VLog l) = Some l"
| "asLog _ = None"

fun asSettings :: "jsonb \<Rightarrow> SystemSettings option" where
  "asSettings (VSettings s) = Some s"
| "asSettings _ = None"

fun asModels :: "jsonb \<Rightarrow> ModelMapping list option" where
  "asModels (VModels ms) = Some ms"
| "asModels _ = None"

subsection \<open>Configuration (\<^verbatim>\<open>config.ts\<close>), a parameter\<close>

text \<open>
  Modelled from the spec: \<^verbatim>\<open>config.ts\<close> is missing. The members of \<^verbatim>\<open>Config\<close> that
  \<^verbatim>\<open>db.ts\<close> reads are the fields of a record that the functions take as a parameter. The
  retention cap is a number of entries, a natural number; the failure threshold is any integer.
\<close>

record Config =
  MAX_FAIL_NUM :: int
  MAX_REQUEST_RECORD_NUM :: nat
  DEFAULT_CTO_COOKIES :: "string list"
  DEFAULT_CHAT_APIKEYS :: "string list"
  DEFAULT_MODELS_MAPS :: "ModelMapping list"
  getDefaultSystemSettings :: SystemSettings

subsection \<open>The world: the backend table, the writes issued, the clock and the id source\<close>

datatype wr = Upsert string jsonb | Delete string

record world =
  kv_data :: "(string \<times> jsonb) list"
  writes :: "wr list"
  uuid_src :: "nat \<Rightarrow> string"
  uuid_n :: nat
  clock_src :: "nat \<Rightarrow> int"
  clock_n :: nat

text \<open>\<^verbatim>\<open>crypto.randomUUID()\<close> and \<^verbatim>\<open>Date.now()\<close> read the next value of their source.\<close>

definition randomUUID :: "world \<Rightarrow> string \<times> world" where
  "randomUUID w = (uuid_src w (uuid_n w), w\<lparr>uuid_n := uuid_n w + 1\<rparr>)"

definition Date_now :: "world \<Rightarrow> int \<times> world" where
  "Date_now w = (clock_src w (clock_n w), w\<lparr>clock_n := clock_n w + 1\<rparr>)"

subsection \<open>Key encoding\<close>

text \<open>A key segment is a string or a number; \<^verbatim>\<open>join\<close> converts a number to its decimal text.\<close>

datatype seg = S string | N int

definition digit :: "nat \<Rightarrow> char" where
  "digit d = ''0123456789'' ! d"

fun digits :: "nat \<Rightarrow> string" where
  "digits n = (if n < 10 then [digit n] else digits (n div 10) @ [digit (n mod 10)])"

declare digits.simps [simp del]

definition show_int :: "int \<Rightarrow> string" where
  "show_int i = (if i < 0 then CHR ''-'' # digits (nat (- i)) else digits (nat i))"

fun seg_str :: "seg \<Rightarrow> string" where
  "seg_str (S s) = s"
| "seg_str (N i) = show_int i"

fun join :: "string \<Rightarrow> string list \<Rightarrow> string" where
  "join sep [] = []"
| "join sep [x] = x"
| "join sep (x # y # ys) = x @ sep @ join sep (y # ys)"

definition makeKey :: "seg list \<Rightarrow> string" where
  "makeKey key = join '':'' (map seg_str key)"

subsection \<open>The four backend operations\<close>

text \<open>\<^verbatim>\<open>select("v").eq("k", k).single()\<close>: a value only when exactly one row has the key.\<close>

definition kvGet :: "seg list \<Rightarrow> world \<Rightarrow> jsonb option" where
  "kvGet key w =
     (let k = makeKey key
      in case filter (\<lambda>row. fst row = k) (kv_data w) of
           [row] \<Rightarrow> Some (snd row)
         | _ \<Rightarrow> None)"

text \<open>\<^verbatim>\<open>upsert({k, v})\<close>: replace the value of the row with this key, or add a row.\<close>

fun upsert :: "'k \<Rightarrow> 'v \<Rightarrow> ('k \<times> 'v) list \<Rightarrow> ('k \<times> 'v) list" where
  "upsert k v [] = [(k, v)]"
| "upsert k v (row # rows) =
     (if fst row = k then (k, v) # rows else row # upsert k v rows)"

definition kvSet :: "seg list \<Rightarrow> jsonb \<Rightarrow> world \<Rightarrow> world" where
  "kvSet key v w =
     (let k = makeKey key
      in w\<lparr>kv_data := upsert k v (kv_data w), writes := writes w @ [Upsert k v]\<rparr>)"

definition kvDelete :: "seg list \<Rightarrow> world \<Rightarrow> world" where
  "kvDelete key w =
     (let k = makeKey key
      in w\<lparr>kv_data := filter (\<lambda>row. fst row \<noteq> k) (kv_data w),
            writes := writes w @ [Delete k]\<rparr>)"

text \<open>
  \<^verbatim>\<open>like("k", p + "%")\<close>: the pattern match of the backend. In a pattern, \<^verbatim>\<open>%\<close> stands for
  any text (as does \<^verbatim>\<open>*\<close>, which the REST layer reads as \<^verbatim>\<open>%\<close>), \<^verbatim>\<open>_\<close> for any one
  character, and a backslash takes the character after it literally; every other character
  stands for itself.
\<close>

fun like :: "string \<Rightarrow> string \<Rightarrow> bool" where
  "like [] s = (s = [])"
| "like (c # p) [] = ((c = CHR ''%'' \<or> c = CHR ''*'') \<and> like p [])"
| "like (c # p) (x # s) =
     (if c = CHR ''%'' \<or> c = CHR ''*'' then like p (x # s) \<or> like (c # p) s
      else if c = CHR ''_'' then like p s
      else if c = CHR 0x5C then (case p of [] \<Rightarrow> False | e # p' \<Rightarrow> e = x \<and> like p' s)
      else c = x \<and> like p s)"

definition kvList :: "seg list \<Rightarrow> world \<Rightarrow> (string \<times> jsonb) list" where
  "kvList pfx w =
     (let p = makeKey pfx
      in filter (\<lambda>row. like (p @ ''%'') (fst row)) (kv_data w))"

subsection \<open>\<^verbatim>\<open>CookieDB\<close>\<close>

definition CookieDB_PREFIX :: "seg list" where
  "CookieDB_PREFIX = [S ''cookies'']"

definition CookieDB_getAll :: "world \<Rightarrow> Cookie list \<times> world" where
  "CookieDB_getAll w =
     (let list = kvList CookieDB_PREFIX w;
          cookies = List.map_filter (\<lambda>item. asCookie (snd item)) list
      in (sort_key c_createdAt cookies, w))"

definition CookieDB_get :: "string \<Rightarrow> world \<Rightarrow> Cookie option \<times> world" where
  "CookieDB_get cid w = (Option.bind (kvGet (CookieDB_PREFIX @ [S cid]) w) asCookie, w)"

definition CookieDB_add :: "CookieInput \<Rightarrow> world \<Rightarrow> Cookie \<times> world" where
  "CookieDB_add cookie w =
     (let (u, w1) = randomUUID w;
          (t1, w2) = Date_now w1;
          (t2, w3) = Date_now w2;
          newCookie = \<lparr>c_id = u, c_value = ci_value cookie, c_isValid = ci_isValid cookie,
                       c_failCount = ci_failCount cookie, c_isDefault = ci_isDefault cookie,
                       c_createdAt = t1, c_updatedAt = t2\<rparr>
      in (newCookie, kvSet (CookieDB_PREFIX @ [S (c_id newCookie)]) (VCookie newCookie) w3))"

text \<open>The spread \<^verbatim>\<open>{...existing, ...updates}\<close>: a field of \<open>updates\<close> that is present wins.\<close>

definition spreadCookie :: "Cookie \<Rightarrow> CookiePatch \<Rightarrow> Cookie" where
  "spreadCookie existing updates =
     \<lparr>c_id = (case cp_id updates of None \<Rightarrow> c_id existing | Some x \<Rightarrow> x),
      c_value = (case cp_value updates of None \<Rightarrow> c_value existing | Some x \<Rightarrow> x),
      c_isValid = (case cp_isValid updates of None \<Rightarrow> c_isValid existing | Some x \<Rightarrow> x),
      c_failCount = (case cp_failCount updates of None \<Rightarrow> c_failCount existing | Some x \<Rightarrow> x),
      c_isDefault = (case cp_isDefault updates of None \<Rightarrow> c_isDefault existing | Some x \<Rightarrow> x),
      c_createdAt = (case cp_createdAt updates of None \<Rightarrow> c_createdAt existing | Some x \<Rightarrow> x),
      c_updatedAt = (case cp_updatedAt updates of None \<Rightarrow> c_updatedAt existing | Some x \<Rightarrow> x)\<rparr>"

definition CookieDB_update :: "string \<Rightarrow> CookiePatch \<Rightarrow> world \<Rightarrow> bool \<times> world" where
  "CookieDB_update cid updates w =
     (case CookieDB_get cid w of
        (None, w1) \<Rightarrow> (False, w1)
      | (Some existing, w1) \<Rightarrow>
          (let (now, w2) = Date_now w1;
               updated = (spreadCookie existing updates)\<lparr>c_updatedAt := now\<rparr>
           in (True, kvSet (CookieDB_PREFIX @ [S cid]) (VCookie updated) w2)))"

definition CookieDB_delete :: "string \<Rightarrow> world \<Rightarrow> bool \<times> world" where
  "CookieDB_delete cid w =
     (case CookieDB_get cid w of
        (None, w1) \<Rightarrow> (False, w1)
      | (Some existing, w1) \<Rightarrow>
          if c_isDefault existing then (False, w1)
          else (True, kvDelete (CookieDB_PREFIX @ [S cid]) w1))"

definition CookieDB_getValidCookies :: "world \<Rightarrow> Cookie list \<times> world" where
  "CookieDB_getValidCookies w =
     (let (all, w1) = CookieDB_getAll w in (filter c_isValid all, w1))"

text \<open>An object literal \<^verbatim>\<open>{ ... }\<close> of type \<^verbatim>\<open>Partial<Cookie>\<close> starts from no field.\<close>

definition noCookiePatch :: CookiePatch where
  "noCookiePatch =
     \<lparr>cp_id = None, cp_value = None, cp_isValid = None, cp_failCount = None,
      cp_isDefault = None, cp_createdAt = None, cp_updatedAt = None\<rparr>"

definition CookieDB_incrementFailCount :: "Config \<Rightarrow> string \<Rightarrow> world \<Rightarrow> world" where
  "CookieDB_incrementFailCount cfg cid w =
     (case CookieDB_get cid w of
        (None, w1) \<Rightarrow> w1
      | (Some cookie, w1) \<Rightarrow>
          (let newFailCount = c_failCount cookie + 1;
               isValid = newFailCount < MAX_FAIL_NUM cfg
           in snd (CookieDB_update cid
                     (noCookiePatch\<lparr>cp_failCount := Some newFailCount,
                                     cp_isValid := Some isValid\<rparr>) w1)))"

definition CookieDB_resetFailCount :: "string \<Rightarrow> world \<Rightarrow> world" where
  "CookieDB_resetFailCount cid w =
     snd (CookieDB_update cid
            (noCookiePatch\<lparr>cp_failCount := Some 0, cp_isValid := Some True\<rparr>) w)"

subsection \<open>\<^verbatim>\<open>ApiKeyDB\<close>\<close>

definition ApiKeyDB_PREFIX :: "seg list" where
  "ApiKeyDB_PREFIX = [S ''apikeys'']"

definition ApiKeyDB_getAll :: "world \<Rightarrow> ApiKey list \<times> world" where
  "ApiKeyDB_getAll w =
     (let list = kvList ApiKeyDB_PREFIX w;
          keys = List.map_filter (\<lambda>item. asApiKey (snd item)) list
      in (sort_key k_createdAt keys, w))"

definition ApiKeyDB_get :: "string \<Rightarrow> world \<Rightarrow> ApiKey option \<times> world" where
  "ApiKeyDB_get kid w = (Option.bind (kvGet (ApiKeyDB_PREFIX @ [S kid]) w) asApiKey, w)"

definition ApiKeyDB_getByKey :: "string \<Rightarrow> world \<Rightarrow> ApiKey option \<times> world" where
  "ApiKeyDB_getByKey key w =
     (let (all, w1) = ApiKeyDB_getAll w
      in (List.find (\<lambda>k. k_key k = key) all, w1))"

definition ApiKeyDB_add :: "ApiKeyInput \<Rightarrow> world \<Rightarrow> ApiKey \<times> world" where
  "ApiKeyDB_add apiKey w =
     (let (u, w1) = randomUUID w;
          (t, w2) = Date_now w1;
          newKey = \<lparr>k_id = u, k_key = ki_key apiKey, k_isEnabled = ki_isEnabled apiKey,
                    k_isDefault = ki_isDefault apiKey, k_createdAt = t, k_requestCount = 0\<rparr>
      in (newKey, kvSet (ApiKeyDB_PREFIX @ [S (k_id newKey)]) (VApiKey newKey) w2))"

definition spreadApiKey :: "ApiKey \<Rightarrow> ApiKeyPatch \<Rightarrow> ApiKey" where
  "spreadApiKey existing updates =
     \<lparr>k_id = (case kp_id updates of None \<Rightarrow> k_id existing | Some x \<Rightarrow> x),
      k_key = (case kp_key updates of None \<Rightarrow> k_key existing | Some x \<Rightarrow> x),
      k_isEnabled = (case kp_isEnabled updates of None \<Rightarrow> k_isEnabled existing | Some x \<Rightarrow> x),
      k_isDefault = (case kp_isDefault updates of None \<Rightarrow> k_isDefault existing | Some x \<Rightarrow> x),
      k_createdAt = (case kp_createdAt updates of None \<Rightarrow> k_createdAt existing | Some x \<Rightarrow> x),
      k_requestCount =
        (case kp_requestCount updates of None \<Rightarrow> k_requestCount existing | Some x \<Rightarrow> x)\<rparr>"

definition ApiKeyDB_update :: "string \<Rightarrow> ApiKeyPatch \<Rightarrow> world \<Rightarrow> bool \<times> world" where
  "ApiKeyDB_update kid updates w =
     (case ApiKeyDB_get kid w of
        (None, w1) \<Rightarrow> (False, w1)
      | (Some existing, w1) \<Rightarrow>
          (let updated = spreadApiKey existing updates
           in (True, kvSet (ApiKeyDB_PREFIX @ [S kid]) (VApiKey updated) w1)))"

definition ApiKeyDB_delete :: "string \<Rightarrow> world \<Rightarrow> bool \<times> world" where
  "ApiKeyDB_delete kid w =
     (case ApiKeyDB_get kid w of
        (None, w1) \<Rightarrow> (False, w1)
      | (Some existing, w1) \<Rightarrow>
          if k_isDefault existing then (False, w1)
          else (True, kvDelete (ApiKeyDB_PREFIX @ [S kid]) w1))"

definition noApiKeyPatch :: ApiKeyPatch where
  "noApiKeyPatch =
     \<lparr>kp_id = None, kp_key = None, kp_isEnabled = None, kp_isDefault = None,
      kp_createdAt = None, kp_requestCount = None\<rparr>"

definition ApiKeyDB_incrementRequestCount :: "string \<Rightarrow> world \<Rightarrow> world" where
  "ApiKeyDB_incrementRequestCount key w =
     (case ApiKeyDB_getByKey key w of
        (None, w1) \<Rightarrow> w1
      | (Some apiKey, w1) \<Rightarrow>
          snd (ApiKeyDB_update (k_id apiKey)
                 (noApiKeyPatch\<lparr>kp_requestCount := Some (k_requestCount apiKey + 1)\<rparr>) w1))"

definition ApiKeyDB_getEnabledKeys :: "world \<Rightarrow> ApiKey list \<times> world" where
  "ApiKeyDB_getEnabledKeys w =
     (let (all, w1) = ApiKeyDB_getAll w in (filter k_isEnabled all, w1))"

subsection \<open>\<^verbatim>\<open>RequestLogDB\<close>\<close>

definition RequestLogDB_PREFIX :: "seg list" where
  "RequestLogDB_PREFIX = [S ''logs'']"

text \<open>
  \<^verbatim>\<open>sort((a, b) => b.timestamp - a.timestamp)\<close> is a stable sort, newest first;
  \<^verbatim>\<open>slice(n)\<close> drops the first \<open>n\<close> elements; the \<^verbatim>\<open>for\<close> loop is a fold over \<open>toDelete\<close>.
\<close>

definition RequestLogDB_cleanup :: "Config \<Rightarrow> world \<Rightarrow> world" where
  "RequestLogDB_cleanup cfg w =
     (let list = kvList RequestLogDB_PREFIX w;
          logs = List.map_filter (\<lambda>item. asLog (snd item)) list
      in if length logs \<le> MAX_REQUEST_RECORD_NUM cfg then w
         else
           (let toDelete = drop (MAX_REQUEST_RECORD_NUM cfg)
                             (sort_key (\<lambda>l. - l_timestamp l) logs)
            in fold (\<lambda>log. kvDelete (RequestLogDB_PREFIX @ [N (l_timestamp log), S (l_id log)]))
                 toDelete w))"

definition RequestLogDB_add :: "Config \<Rightarrow> RequestLogInput \<Rightarrow> world \<Rightarrow> world" where
  "RequestLogDB_add cfg log w =
     (let (u, w1) = randomUUID w;
          newLog = \<lparr>l_id = u, l_timestamp = li_timestamp log, l_path = li_path log,
                    l_meta = li_meta log\<rparr>;
          w2 = kvSet (RequestLogDB_PREFIX @ [N (l_timestamp newLog), S (l_id newLog)])
                 (VLog newLog) w1
      in RequestLogDB_cleanup cfg w2)"

text \<open>The default of \<open>limit\<close> is the cap; \<^verbatim>\<open>slice(0, limit)\<close> keeps the first \<open>limit\<close>.\<close>

definition RequestLogDB_getRecent :: "Config \<Rightarrow> nat option \<Rightarrow> world \<Rightarrow> RequestLog list \<times> world" where
  "RequestLogDB_getRecent cfg limit w =
     (let list = kvList RequestLogDB_PREFIX w;
          logs = List.map_filter (\<lambda>item. asLog (snd item)) list;
          lim = (case limit of None \<Rightarrow> MAX_REQUEST_RECORD_NUM cfg | Some n \<Rightarrow> n)
      in (take lim (sort_key (\<lambda>l. - l_timestamp l) logs), w))"

definition RequestLogDB_count :: "world \<Rightarrow> nat \<times> world" where
  "RequestLogDB_count w = (length (kvList RequestLogDB_PREFIX w), w)"

definition RequestLogDB_countByPath :: "string \<Rightarrow> world \<Rightarrow> nat \<times> world" where
  "RequestLogDB_countByPath path w =
     (let list = kvList RequestLogDB_PREFIX w
      in (length (filter (\<lambda>entry. case asLog (snd entry) of
                                     None \<Rightarrow> False
                                   | Some l \<Rightarrow> l_path l = path) list), w))"

subsection \<open>\<^verbatim>\<open>SystemSettingsDB\<close> and \<^verbatim>\<open>ModelMappingDB\<close>\<close>

text \<open>
  The object spread \<^verbatim>\<open>{...current, ...settings}\<close>: the properties of \<open>current\<close> in their
  order, each property of \<open>settings\<close> replacing the one of the same name or added last.
\<close>

definition spread :: "jsobj \<Rightarrow> jsobj \<Rightarrow> jsobj" where
  "spread current settings = fold (\<lambda>(name, v). upsert name v) settings current"

definition SystemSettingsDB_KEY :: "seg list" where
  "SystemSettingsDB_KEY = [S ''settings'', S ''system'']"

text \<open>A stored object is truthy, so \<^verbatim>\<open>||\<close> takes the default only when \<open>kvGet\<close> gave null.\<close>

definition SystemSettingsDB_get :: "Config \<Rightarrow> world \<Rightarrow> SystemSettings \<times> world" where
  "SystemSettingsDB_get cfg w =
     (case Option.bind (kvGet SystemSettingsDB_KEY w) asSettings of
        Some s \<Rightarrow> (s, w)
      | None \<Rightarrow> (getDefaultSystemSettings cfg, w))"

definition SystemSettingsDB_update :: "Config \<Rightarrow> jsobj \<Rightarrow> world \<Rightarrow> SystemSettings \<times> world" where
  "SystemSettingsDB_update cfg settings w =
     (let (current, w1) = SystemSettingsDB_get cfg w;
          updated = spread current settings
      in (updated, kvSet SystemSettingsDB_KEY (VSettings updated) w1))"

definition ModelMappingDB_KEY :: "seg list" where
  "ModelMappingDB_KEY = [S ''settings'', S ''models'']"

definition ModelMappingDB_get :: "Config \<Rightarrow> world \<Rightarrow> ModelMapping list \<times> world" where
  "ModelMappingDB_get cfg w =
     (case Option.bind (kvGet ModelMappingDB_KEY w) asModels of
        Some ms \<Rightarrow> (ms, w)
      | None \<Rightarrow> (DEFAULT_MODELS_MAPS cfg, w))"

definition ModelMappingDB_update :: "ModelMapping list \<Rightarrow> world \<Rightarrow> world" where
  "ModelMappingDB_update mappings w = kvSet ModelMappingDB_KEY (VModels mappings) w"

subsection \<open>\<^verbatim>\<open>initializeDatabase\<close>\<close>

text \<open>The two \<^verbatim>\<open>for\<close> loops are folds over the default lists; the final log line is not modelled.\<close>

definition initializeDatabase :: "Config \<Rightarrow> world \<Rightarrow> world" where
  "initializeDatabase cfg w =
     (let (cookies, w1) = CookieDB_getAll w;
          w2 = (if length cookies = 0 \<and> length (DEFAULT_CTO_COOKIES cfg) > 0
                then fold (\<lambda>v wa. snd (CookieDB_add
                             \<lparr>ci_value = v, ci_isValid = True, ci_failCount = 0,
                              ci_isDefault = True\<rparr> wa))
                       (DEFAULT_CTO_COOKIES cfg) w1
                else w1);
          (keys, w3) = ApiKeyDB_getAll w2
      in if length keys = 0
         then fold (\<lambda>key wa. snd (ApiKeyDB_add
                      \<lparr>ki_key = key, ki_isEnabled = True, ki_isDefault = True\<rparr> wa))
                (DEFAULT_CHAT_APIKEYS cfg) w3
         else w3)"

subsection \<open>Properties of stored data\<close>

text \<open>The health of the cookie stored under \<open>cid\<close>: its \<open>failCount\<close> and \<open>isValid\<close>.\<close>

definition health :: "string \<Rightarrow> world \<Rightarrow> (int \<times> bool) option" where
  "health cid w = map_option (\<lambda>c. (c_failCount c, c_isValid c)) (fst (CookieDB_get cid w))"

text \<open>A segment text without the delimiter of \<open>makeKey\<close>.\<close>

definition colon_free :: "string \<Rightarrow> bool" where
  "colon_free s = (CHR '':'' \<notin> set s)"

text \<open>A text without a pattern character of \<open>like\<close>.\<close>

definition pattern_free :: "string \<Rightarrow> bool" where
  "pattern_free p = (set p \<inter> {CHR ''%'', CHR ''*'', CHR ''_'', CHR 0x5C} = {})"

text \<open>The cookie invariant of the data model, for one cookie and for every stored cookie.\<close>

definition cookieInv :: "Config \<Rightarrow> Cookie \<Rightarrow> bool" where
  "cookieInv cfg c = (c_isValid c = (c_failCount c < MAX_FAIL_NUM cfg))"

definition cookiesInv :: "Config \<Rightarrow> world \<Rightarrow> bool" where
  "cookiesInv cfg w =
     list_all (\<lambda>row. case asCookie (snd row) of None \<Rightarrow> True | Some c \<Rightarrow> cookieInv cfg c)
       (kv_data w)"

subsection \<open>The log collection\<close>

text \<open>
  \<open>logKey\<close> is the key under which \<open>add\<close> writes a log and \<open>cleanup\<close>
  deletes it; \<open>withId\<close> is the object literal \<^verbatim>\<open>{...log, id}\<close>; \<open>logsOf\<close> is the list
  \<open>logs\<close> that \<open>cleanup\<close> and \<open>getRecent\<close> compute from the table. The log collection is well
  keyed (\<open>logsInv\<close>) when the table has one row per key and every row under the prefix is a
  log stored at its own key, which is how \<open>add\<close> writes them.
\<close>

definition logKey :: "RequestLog \<Rightarrow> string" where
  "logKey l = makeKey (RequestLogDB_PREFIX @ [N (l_timestamp l), S (l_id l)])"

definition withId :: "RequestLogInput \<Rightarrow> string \<Rightarrow> RequestLog" where
  "withId log u = \<lparr>l_id = u, l_timestamp = li_timestamp log, l_path = li_path log, l_meta = li_meta log\<rparr>"

definition logsOf :: "(string \<times> jsonb) list \<Rightarrow> RequestLog list" where
  "logsOf rows = List.map_filter (\<lambda>item. asLog (snd item))
                   (filter (\<lambda>row. prefix ''logs'' (fst row)) rows)"

definition logRow :: "string \<times> jsonb \<Rightarrow> bool" where
  "logRow row = (case asLog (snd row) of None \<Rightarrow> False | Some l \<Rightarrow> fst row = logKey l)"

definition logsInv :: "world \<Rightarrow> bool" where
  "logsInv w \<longleftrightarrow>
     distinct (map fst (kv_data w))
     \<and> list_all (\<lambda>row. prefix (makeKey RequestLogDB_PREFIX) (fst row) \<longrightarrow> logRow row) (kv_data w)"

subsection \<open>The loops of \<open>initializeDatabase\<close>\<close>

text \<open>
  The two loops of \<open>initializeDatabase\<close> under a name of their own, the write that \<open>add\<close>
  issues for an entity and the row that it stores.
\<close>

definition seedCookies :: "string list \<Rightarrow> world \<Rightarrow> world" where
  "seedCookies vs w =
     fold (\<lambda>v wa. snd (CookieDB_add
             \<lparr>ci_value = v, ci_isValid = True, ci_failCount = 0, ci_isDefault = True\<rparr> wa)) vs w"

definition seedApiKeys :: "string list \<Rightarrow> world \<Rightarrow> world" where
  "seedApiKeys ks w =
     fold (\<lambda>key wa. snd (ApiKeyDB_add
             \<lparr>ki_key = key, ki_isEnabled = True, ki_isDefault = True\<rparr> wa)) ks w"

definition cookieUpsert :: "Cookie \<Rightarrow> wr" where
  "cookieUpsert c = Upsert (makeKey (CookieDB_PREFIX @ [S (c_id c)])) (VCookie c)"

definition apiKeyUpsert :: "ApiKey \<Rightarrow> wr" where
  "apiKeyUpsert k = Upsert (makeKey (ApiKeyDB_PREFIX @ [S (k_id k)])) (VApiKey k)"

definition cookieRow :: "Cookie \<Rightarrow> string \<times> jsonb" where
  "cookieRow c = (makeKey (CookieDB_PREFIX @ [S (c_id c)]), VCookie c)"

definition apiKeyRow :: "ApiKey \<Rightarrow> string \<times> jsonb" where
  "apiKeyRow k = (makeKey (ApiKeyDB_PREFIX @ [S (k_id k)]), VApiKey k)"

subsection \<open>Calls of the module\<close>

text \<open>
  The calls of the module that can write, and their execution; a world is reached by a list of
  calls from the empty table.
\<close>

datatype call =
    Call_CookieDB_add CookieInput
  | Call_CookieDB_update string CookiePatch
  | Call_CookieDB_delete string
  | Call_CookieDB_incrementFailCount string
  | Call_CookieDB_resetFailCount string
  | Call_ApiKeyDB_add ApiKeyInput
  | Call_ApiKeyDB_update string ApiKeyPatch
  | Call_ApiKeyDB_delete string
  | Call_ApiKeyDB_incrementRequestCount string
  | Call_RequestLogDB_add RequestLogInput
  | Call_SystemSettingsDB_update jsobj
  | Call_ModelMappingDB_update "ModelMapping list"
  | Call_initializeDatabase

fun exec :: "Config \<Rightarrow> call \<Rightarrow> world \<Rightarrow> world" where
  "exec cfg (Call_CookieDB_add c) w = snd (CookieDB_add c w)"
| "exec cfg (Call_CookieDB_update cid p) w = snd (CookieDB_update cid p w)"
| "exec cfg (Call_CookieDB_delete cid) w = snd (CookieDB_delete cid w)"
| "exec cfg (Call_CookieDB_incrementFailCount cid) w = CookieDB_incrementFailCount cfg cid w"
| "exec cfg (Call_CookieDB_resetFailCount cid) w = CookieDB_resetFailCount cid w"
| "exec cfg (Call_ApiKeyDB_add k) w = snd (ApiKeyDB_add k w)"
| "exec cfg (Call_ApiKeyDB_update kid p) w = snd (ApiKeyDB_update kid p w)"
| "exec cfg (Call_ApiKeyDB_delete kid) w = snd (ApiKeyDB_delete kid w)"
| "exec cfg (Call_ApiKeyDB_incrementRequestCount key) w = ApiKeyDB_incrementRequestCount key w"
| "exec cfg (Call_RequestLogDB_add l) w = RequestLogDB_add cfg l w"
| "exec cfg (Call_SystemSettingsDB_update s) w = snd (SystemSettingsDB_update cfg s w)"
| "exec cfg (Call_ModelMappingDB_update ms) w = ModelMappingDB_update ms w"
| "exec cfg Call_initializeDatabase w = initializeDatabase cfg w"

subsection \<open>The model-mapping update in the words of the specification\<close>

text \<open>
  The update of the model-mapping store as the specification words it (section 4.6: "read
  current-or-default, shallow-merge, write, return merged result", "with a list-typed
  value"). It is not a translation of the source, which is \<open>ModelMappingDB_update\<close> above, and
  serves only to compare the two. Spreading a list over a list replaces the leading positions
  and keeps the rest.
\<close>

definition spreadList :: "'a list \<Rightarrow> 'a list \<Rightarrow> 'a list" where
  "spreadList current partial = partial @ drop (length partial) current"

definition ModelMappingDB_update_as_specified ::
    "Config \<Rightarrow> ModelMapping list \<Rightarrow> world \<Rightarrow> ModelMapping list \<times> world" where
  "ModelMappingDB_update_as_specified cfg partial w =
     (let (current, w1) = ModelMappingDB_get cfg w;
          updated = spreadList current partial
      in (updated, kvSet ModelMappingDB_KEY (VModels updated) w1))"

subsection \<open>Sample data for concrete runs\<close>

definition sample_uuid :: "nat \<Rightarrow> string" where
  "sample_uuid n = ''id'' @ digits n"

definition sample_world :: "(string \<times> jsonb) list \<Rightarrow> world" where
  "sample_world rows =
     \<lparr>kv_data = rows, writes = [], uuid_src = sample_uuid, uuid_n = 0,
      clock_src = int, clock_n = 0\<rparr>"

definition sample_config :: "Config" where
  "sample_config =
     \<lparr>MAX_FAIL_NUM = 3, MAX_REQUEST_RECORD_NUM = 2,
      DEFAULT_CTO_COOKIES = [''ck1'', ''ck2''], DEFAULT_CHAT_APIKEYS = [''sk1''],
      DEFAULT_MODELS_MAPS = [[(''name'', JStr ''m'')]],
      getDefaultSystemSettings = [(''debug'', JBool False)]\<rparr>"

definition sample_cookie :: "string \<Rightarrow> bool \<Rightarrow> Cookie" where
  "sample_cookie cid dflt =
     \<lparr>c_id = cid, c_value = ''v'', c_isValid = True, c_failCount = 0, c_isDefault = dflt,
      c_createdAt = 5, c_updatedAt = 5\<rparr>"

definition sample_apikey :: "string \<Rightarrow> string \<Rightarrow> int \<Rightarrow> bool \<Rightarrow> ApiKey" where
  "sample_apikey kid key t dflt =
     \<lparr>k_id = kid, k_key = key, k_isEnabled = True, k_isDefault = dflt, k_createdAt = t,
      k_requestCount = 0\<rparr>"

definition sample_rows :: "(string \<times> jsonb) list" where
  "sample_rows =
     [(''cookies:a'', VCookie (sample_cookie ''a'' False)),
      (''cookies:d'', VCookie (sample_cookie ''d'' True)),
      (''apikeys:k1'', VApiKey (sample_apikey ''k1'' ''sk-x'' 7 False)),
      (''apikeys:k0'', VApiKey (sample_apikey ''k0'' ''sk-x'' 3 True))]"

definition sample_models_rows :: "(string \<times> jsonb) list" where
  "sample_models_rows =
     [(''settings:models'', VModels [[(''name'', JStr ''a'')], [(''name'', JStr ''b'')]])]"

definition sample_log :: "int \<Rightarrow> RequestLogInput" where
  "sample_log t = \<lparr>li_timestamp = t, li_path = ''/v1/chat'', li_meta = []\<rparr>"

section \<open>Facts about the backend operations\<close>

lemma filter_key_upsert_same:
  "filter (\<lambda>row. fst row = k) (upsert k v rows) = (k, v) # tl (filter (\<lambda>row. fst row = k) rows)"
  by (induction rows) auto

lemma filter_key_upsert_other:
  "k' \<noteq> k \<Longrightarrow> filter (\<lambda>row. fst row = k') (upsert k v rows) = filter (\<lambda>row. fst row = k') rows"
  by (induction rows) auto

lemma kvGet_kvSet_same:
  "kvGet key w = Some x \<Longrightarrow> kvGet key (kvSet key v w) = Some v"
  by (auto simp: kvGet_def kvSet_def Let_def filter_key_upsert_same split: list.splits)

lemma kvGet_kvDelete_same: "kvGet key (kvDelete key w) = None"
  by (simp add: kvGet_def kvDelete_def Let_def)

lemma kvGet_Date_now [simp]: "kvGet key (snd (Date_now w)) = kvGet key w"
  by (simp add: kvGet_def Date_now_def)

text \<open>
  For a prefix without pattern characters the scan is the literal test that the key starts
  with the prefix; the prefixes of the three collections are such.
\<close>

lemma like_any: "like ''%'' s"
  by (induction s) auto

lemma like_plain: "pattern_free p \<Longrightarrow> like (p @ ''%'') s \<longleftrightarrow> prefix p s"
proof (induction p arbitrary: s)
  case Nil
  then show ?case by (simp add: like_any)
next
  case (Cons c p)
  then have "pattern_free p" and c: "c \<noteq> CHR ''%''" "c \<noteq> CHR ''*''" "c \<noteq> CHR ''_''" "c \<noteq> CHR 0x5C"
    by (auto simp: pattern_free_def)
  with Cons.IH have "like (p @ ''%'') t \<longleftrightarrow> prefix p t" for t by simp
  with c show ?case by (cases s) auto
qed

lemma kvList_plain:
  "pattern_free (makeKey pfx) \<Longrightarrow>
     kvList pfx w = filter (\<lambda>row. prefix (makeKey pfx) (fst row)) (kv_data w)"
  by (simp add: kvList_def Let_def like_plain)

lemma kvList_collection:
  "kvList CookieDB_PREFIX w = filter (\<lambda>row. prefix (makeKey CookieDB_PREFIX) (fst row)) (kv_data w)"
  "kvList ApiKeyDB_PREFIX w = filter (\<lambda>row. prefix (makeKey ApiKeyDB_PREFIX) (fst row)) (kv_data w)"
  "kvList RequestLogDB_PREFIX w
     = filter (\<lambda>row. prefix (makeKey RequestLogDB_PREFIX) (fst row)) (kv_data w)"
  by (rule kvList_plain,
      simp add: pattern_free_def makeKey_def CookieDB_PREFIX_def ApiKeyDB_PREFIX_def
        RequestLogDB_PREFIX_def)+

section \<open>The cookie health state machine\<close>

lemma CookieDB_get_snd [simp]: "snd (CookieDB_get cid w) = w"
  by (simp add: CookieDB_get_def)

lemma CookieDB_get_Some_kvGet:
  "fst (CookieDB_get cid w) = Some c \<longleftrightarrow> kvGet (CookieDB_PREFIX @ [S cid]) w = Some (VCookie c)"
  apply (simp add: CookieDB_get_def)
  apply (cases "kvGet (CookieDB_PREFIX @ [S cid]) w")
   apply simp
  subgoal for v by (cases v) auto
  done

lemma CookieDB_update_Some:
  assumes "fst (CookieDB_get cid w) = Some c"
  shows "CookieDB_update cid p w =
           (True, kvSet (CookieDB_PREFIX @ [S cid])
                    (VCookie ((spreadCookie c p)\<lparr>c_updatedAt := fst (Date_now w)\<rparr>))
                    (snd (Date_now w)))"
proof -
  from assms have "CookieDB_get cid w = (Some c, w)"
    by (simp add: CookieDB_get_def)
  then show ?thesis
    by (simp add: CookieDB_update_def Let_def split: prod.splits)
qed

lemma CookieDB_get_after_update:
  assumes "fst (CookieDB_get cid w) = Some c"
  shows "fst (CookieDB_get cid (snd (CookieDB_update cid p w))) =
           Some ((spreadCookie c p)\<lparr>c_updatedAt := fst (Date_now w)\<rparr>)"
proof -
  from assms have "kvGet (CookieDB_PREFIX @ [S cid]) (snd (Date_now w)) = Some (VCookie c)"
    by (simp add: CookieDB_get_Some_kvGet)
  then show ?thesis
    by (simp add: CookieDB_update_Some [OF assms] CookieDB_get_Some_kvGet kvGet_kvSet_same)
qed

lemma CookieDB_incrementFailCount_Some:
  assumes "fst (CookieDB_get cid w) = Some c"
  shows "CookieDB_incrementFailCount cfg cid w =
          snd (CookieDB_update cid
                 (noCookiePatch\<lparr>cp_failCount := Some (c_failCount c + 1),
                                 cp_isValid := Some (c_failCount c + 1 < MAX_FAIL_NUM cfg)\<rparr>) w)"
proof -
  from assms have "CookieDB_get cid w = (Some c, w)"
    by (simp add: CookieDB_get_def)
  then show ?thesis
    by (simp add: CookieDB_incrementFailCount_def Let_def)
qed

lemma CookieDB_get_after_incrementFailCount:
  assumes "fst (CookieDB_get cid w) = Some c"
  shows "fst (CookieDB_get cid (CookieDB_incrementFailCount cfg cid w)) =
           Some (c\<lparr>c_isValid := c_failCount c + 1 < MAX_FAIL_NUM cfg,
                   c_failCount := c_failCount c + 1,
                   c_updatedAt := fst (Date_now w)\<rparr>)"
  by (simp add: CookieDB_incrementFailCount_Some [OF assms] CookieDB_get_after_update [OF assms]
      spreadCookie_def noCookiePatch_def)

lemma CookieDB_get_after_resetFailCount:
  assumes "fst (CookieDB_get cid w) = Some c"
  shows "fst (CookieDB_get cid (CookieDB_resetFailCount cid w)) =
           Some (c\<lparr>c_isValid := True, c_failCount := 0, c_updatedAt := fst (Date_now w)\<rparr>)"
  by (simp add: CookieDB_resetFailCount_def CookieDB_get_after_update [OF assms]
      spreadCookie_def noCookiePatch_def)

text \<open>
  Claim C2. A cookie stored with \<open>failCount = 0\<close> and \<open>isValid = true\<close>, under the threshold
  \<open>MAX_FAIL_NUM = 3\<close>: three calls of \<open>incrementFailCount\<close> in a row take \<open>failCount\<close>
  through 1, 2 and 3, the cookie is still valid after the first two and invalid after the
  third; \<open>resetFailCount\<close> then leaves \<open>failCount = 0\<close> and \<open>isValid = true\<close>.
\<close>

theorem health_state_machine:
  assumes fresh: "health cid w = Some (0, True)"
    and thr: "MAX_FAIL_NUM cfg = 3"
  shows "health cid (CookieDB_incrementFailCount cfg cid w) = Some (1, True)
       \<and> health cid (CookieDB_incrementFailCount cfg cid (CookieDB_incrementFailCount cfg cid w))
           = Some (2, True)
       \<and> health cid (CookieDB_incrementFailCount cfg cid
            (CookieDB_incrementFailCount cfg cid (CookieDB_incrementFailCount cfg cid w)))
           = Some (3, False)
       \<and> health cid (CookieDB_resetFailCount cid (CookieDB_incrementFailCount cfg cid
            (CookieDB_incrementFailCount cfg cid (CookieDB_incrementFailCount cfg cid w))))
           = Some (0, True)"
proof -
  have step: "health cid (CookieDB_incrementFailCount cfg cid v) = Some (n + 1, n + 1 < 3)"
    if "health cid v = Some (n, b)" for v n b
    using that thr by (auto simp: health_def CookieDB_get_after_incrementFailCount)
  have reset: "health cid (CookieDB_resetFailCount cid v) = Some (0, True)"
    if "health cid v = Some (n, b)" for v n b
    using that by (auto simp: health_def CookieDB_get_after_resetFailCount)
  let ?w1 = "CookieDB_incrementFailCount cfg cid w"
  let ?w2 = "CookieDB_incrementFailCount cfg cid ?w1"
  let ?w3 = "CookieDB_incrementFailCount cfg cid ?w2"
  have h1: "health cid ?w1 = Some (1, True)" using step [OF fresh] by simp
  have h2: "health cid ?w2 = Some (2, True)" using step [OF h1] by simp
  have h3: "health cid ?w3 = Some (3, False)" using step [OF h2] by simp
  have h4: "health cid (CookieDB_resetFailCount cid ?w3) = Some (0, True)" by (rule reset [OF h3])
  from h1 h2 h3 h4 show ?thesis by simp
qed

lemma sample_health:
  "health ''a'' (sample_world [(''cookies:a'', VCookie (sample_cookie ''a'' False))]) = Some (0, True)"
  by (simp add: health_def CookieDB_get_def kvGet_def makeKey_def CookieDB_PREFIX_def
      sample_world_def sample_cookie_def)

theorem health_state_machine_witness:
  "health ''a'' (sample_world [(''cookies:a'', VCookie (sample_cookie ''a'' False))]) = Some (0, True)
   \<and> MAX_FAIL_NUM sample_config = 3
   \<and> health ''a'' (CookieDB_resetFailCount ''a'' (CookieDB_incrementFailCount sample_config ''a''
        (CookieDB_incrementFailCount sample_config ''a'' (CookieDB_incrementFailCount sample_config ''a''
          (sample_world [(''cookies:a'', VCookie (sample_cookie ''a'' False))])))))
       = Some (0, True)"
  using health_state_machine [of "''a''"
      "sample_world [(''cookies:a'', VCookie (sample_cookie ''a'' False))]" sample_config]
    sample_health
  by (simp add: sample_config_def)

section \<open>Deleting cookies and API keys\<close>

lemma ApiKeyDB_get_snd [simp]: "snd (ApiKeyDB_get kid w) = w"
  by (simp add: ApiKeyDB_get_def)

lemma kv_data_kvDelete:
  "kv_data (kvDelete key w) = filter (\<lambda>row. fst row \<noteq> makeKey key) (kv_data w)"
  by (simp add: kvDelete_def Let_def)

lemma CookieDB_delete_refused:
  assumes "\<forall>c. fst (CookieDB_get cid w) = Some c \<longrightarrow> c_isDefault c"
  shows "CookieDB_delete cid w = (False, w)"
  using assms by (auto simp: CookieDB_delete_def CookieDB_get_def split: option.splits)

lemma CookieDB_delete_done:
  assumes "fst (CookieDB_get cid w) = Some c" "\<not> c_isDefault c"
  shows "CookieDB_delete cid w = (True, kvDelete (CookieDB_PREFIX @ [S cid]) w)"
  using assms by (auto simp: CookieDB_delete_def CookieDB_get_def split: option.splits)

lemma ApiKeyDB_delete_refused:
  assumes "\<forall>a. fst (ApiKeyDB_get kid w) = Some a \<longrightarrow> k_isDefault a"
  shows "ApiKeyDB_delete kid w = (False, w)"
  using assms by (auto simp: ApiKeyDB_delete_def ApiKeyDB_get_def split: option.splits)

lemma ApiKeyDB_delete_done:
  assumes "fst (ApiKeyDB_get kid w) = Some a" "\<not> k_isDefault a"
  shows "ApiKeyDB_delete kid w = (True, kvDelete (ApiKeyDB_PREFIX @ [S kid]) w)"
  using assms by (auto simp: ApiKeyDB_delete_def ApiKeyDB_get_def split: option.splits)

text \<open>
  Claim C3. \<open>delete(id)\<close> on a cookie or an API key that is absent or has
  \<open>isDefault = true\<close> returns false and leaves the world as it was (no write is issued and
  the entity is still there); on any other stored entity it returns true, the record can no
  longer be read, and the table is the old one without the rows of this key.
\<close>

theorem delete_default_protection:
  "((\<forall>c. fst (CookieDB_get cid w) = Some c \<longrightarrow> c_isDefault c) \<longrightarrow>
       CookieDB_delete cid w = (False, w))
   \<and> (fst (CookieDB_get cid w) = Some c \<and> \<not> c_isDefault c \<longrightarrow>
       fst (CookieDB_delete cid w)
       \<and> fst (CookieDB_get cid (snd (CookieDB_delete cid w))) = None
       \<and> kv_data (snd (CookieDB_delete cid w)) =
           filter (\<lambda>row. fst row \<noteq> makeKey (CookieDB_PREFIX @ [S cid])) (kv_data w))
   \<and> ((\<forall>a. fst (ApiKeyDB_get kid w) = Some a \<longrightarrow> k_isDefault a) \<longrightarrow>
       ApiKeyDB_delete kid w = (False, w))
   \<and> (fst (ApiKeyDB_get kid w) = Some a \<and> \<not> k_isDefault a \<longrightarrow>
       fst (ApiKeyDB_delete kid w)
       \<and> fst (ApiKeyDB_get kid (snd (ApiKeyDB_delete kid w))) = None
       \<and> kv_data (snd (ApiKeyDB_delete kid w)) =
           filter (\<lambda>row. fst row \<noteq> makeKey (ApiKeyDB_PREFIX @ [S kid])) (kv_data w))"
proof (intro conjI impI)
  assume "\<forall>c. fst (CookieDB_get cid w) = Some c \<longrightarrow> c_isDefault c"
  then show "CookieDB_delete cid w = (False, w)" by (rule CookieDB_delete_refused)
next
  assume "\<forall>a. fst (ApiKeyDB_get kid w) = Some a \<longrightarrow> k_isDefault a"
  then show "ApiKeyDB_delete kid w = (False, w)" by (rule ApiKeyDB_delete_refused)
next
  assume h: "fst (CookieDB_get cid w) = Some c \<and> \<not> c_isDefault c"
  then have d: "CookieDB_delete cid w = (True, kvDelete (CookieDB_PREFIX @ [S cid]) w)"
    by (simp add: CookieDB_delete_done)
  show "fst (CookieDB_delete cid w)" by (simp add: d)
  show "fst (CookieDB_get cid (snd (CookieDB_delete cid w))) = None"
    by (simp add: d CookieDB_get_def kvGet_kvDelete_same)
  show "kv_data (snd (CookieDB_delete cid w)) =
          filter (\<lambda>row. fst row \<noteq> makeKey (CookieDB_PREFIX @ [S cid])) (kv_data w)"
    by (simp add: d kv_data_kvDelete)
next
  assume h: "fst (ApiKeyDB_get kid w) = Some a \<and> \<not> k_isDefault a"
  then have d: "ApiKeyDB_delete kid w = (True, kvDelete (ApiKeyDB_PREFIX @ [S kid]) w)"
    by (simp add: ApiKeyDB_delete_done)
  show "fst (ApiKeyDB_delete kid w)" by (simp add: d)
  show "fst (ApiKeyDB_get kid (snd (ApiKeyDB_delete kid w))) = None"
    by (simp add: d ApiKeyDB_get_def kvGet_kvDelete_same)
  show "kv_data (snd (ApiKeyDB_delete kid w)) =
          filter (\<lambda>row. fst row \<noteq> makeKey (ApiKeyDB_PREFIX @ [S kid])) (kv_data w)"
    by (simp add: d kv_data_kvDelete)
qed

lemmas sample_simps =
  sample_rows_def sample_world_def sample_cookie_def sample_apikey_def sample_config_def
  CookieDB_get_def ApiKeyDB_get_def kvGet_def makeKey_def CookieDB_PREFIX_def ApiKeyDB_PREFIX_def

theorem delete_default_protection_witness:
  "CookieDB_delete ''d'' (sample_world sample_rows) = (False, sample_world sample_rows)
   \<and> fst (CookieDB_get ''d'' (snd (CookieDB_delete ''d'' (sample_world sample_rows))))
       = Some (sample_cookie ''d'' True)
   \<and> CookieDB_delete ''zz'' (sample_world sample_rows) = (False, sample_world sample_rows)
   \<and> fst (CookieDB_delete ''a'' (sample_world sample_rows))
   \<and> fst (CookieDB_get ''a'' (snd (CookieDB_delete ''a'' (sample_world sample_rows)))) = None
   \<and> ApiKeyDB_delete ''k0'' (sample_world sample_rows) = (False, sample_world sample_rows)
   \<and> fst (ApiKeyDB_delete ''k1'' (sample_world sample_rows))
   \<and> fst (ApiKeyDB_get ''k1'' (snd (ApiKeyDB_delete ''k1'' (sample_world sample_rows)))) = None"
  using delete_default_protection [of "''d''" "sample_world sample_rows" "sample_cookie ''d'' True"
      "''k0''" "sample_apikey ''k0'' ''sk-x'' 3 True"]
    delete_default_protection [of "''zz''" "sample_world sample_rows" "sample_cookie ''d'' True"
      "''k0''" "sample_apikey ''k0'' ''sk-x'' 3 True"]
    delete_default_protection [of "''a''" "sample_world sample_rows" "sample_cookie ''a'' False"
      "''k1''" "sample_apikey ''k1'' ''sk-x'' 7 False"]
  by (simp add: sample_simps)

section \<open>Settings\<close>

text \<open>
  Claim C6. When no record is stored at the settings key, \<open>SystemSettingsDB.get()\<close> returns
  the default record of the configuration and leaves the world as it was: a raw read at the
  settings key afterwards still finds nothing.
\<close>

theorem settings_get_default:
  assumes "kvGet SystemSettingsDB_KEY w = None"
  shows "SystemSettingsDB_get cfg w = (getDefaultSystemSettings cfg, w)
       \<and> kvGet SystemSettingsDB_KEY (snd (SystemSettingsDB_get cfg w)) = None"
  using assms by (simp add: SystemSettingsDB_get_def)

theorem settings_get_default_witness:
  "kvGet SystemSettingsDB_KEY (sample_world sample_rows) = None
   \<and> SystemSettingsDB_get sample_config (sample_world sample_rows)
       = ([(''debug'', JBool False)], sample_world sample_rows)
   \<and> kvGet SystemSettingsDB_KEY (snd (SystemSettingsDB_get sample_config (sample_world sample_rows)))
       = None"
proof -
  have h: "kvGet SystemSettingsDB_KEY (sample_world sample_rows) = None"
    by (simp add: sample_simps SystemSettingsDB_KEY_def)
  show ?thesis
    using settings_get_default [OF h, of sample_config] h by (simp add: sample_config_def)
qed

section \<open>Looking an API key up by its value\<close>

lemma sample_getAll_keys:
  "fst (ApiKeyDB_getAll (sample_world sample_rows)) =
     [sample_apikey ''k0'' ''sk-x'' 3 True, sample_apikey ''k1'' ''sk-x'' 7 False]"
  unfolding ApiKeyDB_getAll_def kvList_collection
  by (simp add: List.map_filter_def sample_simps)

lemma find_sorted_least:
  "sorted (map f xs) \<Longrightarrow> b \<in> set xs \<Longrightarrow> P b \<Longrightarrow>
     \<exists>r. List.find P xs = Some r \<and> P r \<and> r \<in> set xs \<and> f r \<le> f b"
  by (induction xs) auto

lemma ApiKeyDB_getAll_sorted: "sorted (map k_createdAt (fst (ApiKeyDB_getAll w)))"
  by (simp add: ApiKeyDB_getAll_def Let_def)

lemma asApiKey_Some: "asApiKey v = Some a \<longleftrightarrow> v = VApiKey a"
  by (cases v) auto

lemma ApiKeyDB_getAll_set:
  "set (fst (ApiKeyDB_getAll w)) =
     {a. \<exists>k. (k, VApiKey a) \<in> set (kv_data w) \<and> prefix (makeKey ApiKeyDB_PREFIX) k}"
  apply (auto simp: ApiKeyDB_getAll_def Let_def kvList_collection List.map_filter_def asApiKey_Some image_iff)
  by (metis asApiKey.simps(1) option.sel)

lemma ApiKeyDB_getByKey_find:
  "fst (ApiKeyDB_getByKey key w) = List.find (\<lambda>k. k_key k = key) (fst (ApiKeyDB_getAll w))"
  by (cases "ApiKeyDB_getAll w") (simp add: ApiKeyDB_getByKey_def)

text \<open>
  Claim C9. \<open>getAll()\<close> lists the API keys stored under the prefix, ascending in
  \<open>createdAt\<close>. When no entry of it has the value
  \<open>key\<close>, \<open>getByKey(key)\<close> is null; when some entry \<open>a\<close> has, \<open>getByKey(key)\<close> returns an
  entry with this value whose \<open>createdAt\<close> is at most that of \<open>a\<close>, whichever match \<open>a\<close> is:
  the result has the smallest \<open>createdAt\<close> among the matches.
\<close>

theorem getByKey_earliest_match:
  "sorted (map k_createdAt (fst (ApiKeyDB_getAll w)))
   \<and> (\<forall>b. b \<in> set (fst (ApiKeyDB_getAll w)) \<longleftrightarrow>
            (\<exists>k. (k, VApiKey b) \<in> set (kv_data w) \<and> prefix ''apikeys'' k))
   \<and> ((\<forall>a\<in>set (fst (ApiKeyDB_getAll w)). k_key a \<noteq> key) \<longrightarrow>
        fst (ApiKeyDB_getByKey key w) = None)
   \<and> (a \<in> set (fst (ApiKeyDB_getAll w)) \<and> k_key a = key \<longrightarrow>
        (\<exists>r. fst (ApiKeyDB_getByKey key w) = Some r \<and> r \<in> set (fst (ApiKeyDB_getAll w))
             \<and> k_key r = key \<and> k_createdAt r \<le> k_createdAt a))"
proof (intro conjI impI)
  show "sorted (map k_createdAt (fst (ApiKeyDB_getAll w)))"
    by (rule ApiKeyDB_getAll_sorted)
next
  show "\<forall>b. b \<in> set (fst (ApiKeyDB_getAll w)) \<longleftrightarrow>
            (\<exists>k. (k, VApiKey b) \<in> set (kv_data w) \<and> prefix ''apikeys'' k)"
    by (simp add: ApiKeyDB_getAll_set ApiKeyDB_PREFIX_def makeKey_def)
next
  assume "\<forall>a\<in>set (fst (ApiKeyDB_getAll w)). k_key a \<noteq> key"
  then show "fst (ApiKeyDB_getByKey key w) = None"
    by (simp add: ApiKeyDB_getByKey_find find_None_iff)
next
  assume "a \<in> set (fst (ApiKeyDB_getAll w)) \<and> k_key a = key"
  with find_sorted_least [OF ApiKeyDB_getAll_sorted, of a w "\<lambda>k. k_key k = key"]
  show "\<exists>r. fst (ApiKeyDB_getByKey key w) = Some r \<and> r \<in> set (fst (ApiKeyDB_getAll w))
             \<and> k_key r = key \<and> k_createdAt r \<le> k_createdAt a"
    by (auto simp: ApiKeyDB_getByKey_find)
qed

theorem getByKey_earliest_match_witness:
  "sample_apikey ''k1'' ''sk-x'' 7 False \<in> set (fst (ApiKeyDB_getAll (sample_world sample_rows)))
   \<and> k_key (sample_apikey ''k1'' ''sk-x'' 7 False) = ''sk-x''
   \<and> (\<exists>r. fst (ApiKeyDB_getByKey ''sk-x'' (sample_world sample_rows)) = Some r
          \<and> k_key r = ''sk-x'' \<and> k_createdAt r \<le> k_createdAt (sample_apikey ''k1'' ''sk-x'' 7 False))
   \<and> fst (ApiKeyDB_getByKey ''sk-x'' (sample_world sample_rows))
       = Some (sample_apikey ''k0'' ''sk-x'' 3 True)
   \<and> fst (ApiKeyDB_getByKey ''sk-none'' (sample_world sample_rows)) = None"
proof -
  note t1 = getByKey_earliest_match [of "sample_world sample_rows" "''sk-x''"
      "sample_apikey ''k1'' ''sk-x'' 7 False"]
  note t2 = getByKey_earliest_match [of "sample_world sample_rows" "''sk-none''"
      "sample_apikey ''k1'' ''sk-x'' 7 False"]
  have m: "sample_apikey ''k1'' ''sk-x'' 7 False \<in> set (fst (ApiKeyDB_getAll (sample_world sample_rows)))"
    "k_key (sample_apikey ''k1'' ''sk-x'' 7 False) = ''sk-x''"
    by (simp_all add: sample_getAll_keys) (simp add: sample_apikey_def)
  have n: "\<forall>a\<in>set (fst (ApiKeyDB_getAll (sample_world sample_rows))). k_key a \<noteq> ''sk-none''"
    by (simp add: sample_getAll_keys sample_apikey_def)
  from t1 m have a: "\<exists>r. fst (ApiKeyDB_getByKey ''sk-x'' (sample_world sample_rows)) = Some r
          \<and> k_key r = ''sk-x'' \<and> k_createdAt r \<le> k_createdAt (sample_apikey ''k1'' ''sk-x'' 7 False)"
    by blast
  from t2 n have b: "fst (ApiKeyDB_getByKey ''sk-none'' (sample_world sample_rows)) = None"
    by blast
  have c: "fst (ApiKeyDB_getByKey ''sk-x'' (sample_world sample_rows))
             = Some (sample_apikey ''k0'' ''sk-x'' 3 True)"
    by (simp add: ApiKeyDB_getByKey_find sample_getAll_keys sample_apikey_def)
  from m a b c show ?thesis by blast
qed

section \<open>Counters of entities that are not stored\<close>

text \<open>
  Claim C10. \<open>incrementFailCount(id)\<close> for an id under which no cookie is stored, and
  \<open>incrementRequestCount(key)\<close> for a value that no stored API key has, return the world
  unchanged: no write is issued, every stored record is as before, and the call returns
  normally (its result type has no error).
\<close>

theorem increments_on_missing_are_noops:
  "(fst (CookieDB_get cid w) = None \<longrightarrow> CookieDB_incrementFailCount cfg cid w = w)
   \<and> ((\<forall>a\<in>set (fst (ApiKeyDB_getAll w)). k_key a \<noteq> key) \<longrightarrow>
        ApiKeyDB_incrementRequestCount key w = w)"
proof (intro conjI impI)
  assume "fst (CookieDB_get cid w) = None"
  then have "CookieDB_get cid w = (None, w)" by (simp add: CookieDB_get_def)
  then show "CookieDB_incrementFailCount cfg cid w = w"
    by (simp add: CookieDB_incrementFailCount_def)
next
  assume "\<forall>a\<in>set (fst (ApiKeyDB_getAll w)). k_key a \<noteq> key"
  then have "List.find (\<lambda>k. k_key k = key) (fst (ApiKeyDB_getAll w)) = None"
    by (simp add: find_None_iff)
  moreover have "snd (ApiKeyDB_getAll w) = w" by (simp add: ApiKeyDB_getAll_def Let_def)
  ultimately have "ApiKeyDB_getByKey key w = (None, w)"
    by (cases "ApiKeyDB_getAll w") (simp add: ApiKeyDB_getByKey_def)
  then show "ApiKeyDB_incrementRequestCount key w = w"
    by (simp add: ApiKeyDB_incrementRequestCount_def)
qed

theorem increments_on_missing_are_noops_witness:
  "fst (CookieDB_get ''zz'' (sample_world sample_rows)) = None
   \<and> CookieDB_incrementFailCount sample_config ''zz'' (sample_world sample_rows)
       = sample_world sample_rows
   \<and> ApiKeyDB_incrementRequestCount ''sk-none'' (sample_world sample_rows)
       = sample_world sample_rows"
  using increments_on_missing_are_noops [of "''zz''" "sample_world sample_rows" sample_config "''sk-none''"]
    sample_getAll_keys
  by (simp add: sample_simps)

section \<open>Key encoding and prefix scans\<close>

lemma join_append:
  "join sep (xs @ y # ys) = concat (map (\<lambda>x. x @ sep) xs) @ join sep (y # ys)"
  by (induction sep xs rule: join.induct) auto

lemma makeKey_append:
  "makeKey (xs @ y # ys) = concat (map (\<lambda>x. seg_str x @ '':'') xs) @ makeKey (y # ys)"
  by (simp add: makeKey_def join_append comp_def)

lemma prefix_colon_free:
  assumes "colon_free a"
  shows "prefix a (b @ CHR '':'' # r) \<longleftrightarrow> prefix a b"
proof
  assume "prefix a (b @ CHR '':'' # r)"
  then have "prefix a b \<or> (\<exists>us. a = b @ us \<and> prefix us (CHR '':'' # r))"
    by (simp add: prefix_append)
  then show "prefix a b"
  proof
    assume "prefix a b" then show ?thesis .
  next
    assume "\<exists>us. a = b @ us \<and> prefix us (CHR '':'' # r)"
    then obtain us where us: "a = b @ us" "prefix us (CHR '':'' # r)" by blast
    show ?thesis
    proof (cases us)
      case Nil with us show ?thesis by simp
    next
      case (Cons u us')
      with us have "CHR '':'' \<in> set a" by auto
      with assms show ?thesis by (simp add: colon_free_def)
    qed
  qed
next
  assume "prefix a b" then show "prefix a (b @ CHR '':'' # r)" by (simp add: prefix_prefix)
qed

lemma makeKey_Cons_cases:
  "makeKey (b # rest) = seg_str b \<or> (\<exists>r. makeKey (b # rest) = seg_str b @ CHR '':'' # r)"
  by (cases rest) (auto simp: makeKey_def)

text \<open>
  Claim C4, as amended. \<open>makeKey\<close> joins the segments with a colon and ends the key with no
  terminator. For a key sequence \<open>xs @ [a]\<close> whose last segment has no colon in its text, the
  encoded form is a string prefix of the encoded form of \<open>xs @ b # rest\<close> exactly when the
  text of \<open>a\<close> is a string prefix of the text of \<open>b\<close>; so a prefix scan for \<open>xs @ [a]\<close>
  without pattern characters returns a stored row of the key \<open>xs @ b # rest\<close> exactly in that
  case: the descendants of the member, and also every sibling whose segment starts with the
  member's segment.
\<close>

theorem sibling_prefix_iff:
  assumes "colon_free (seg_str a)"
  shows "(prefix (makeKey (xs @ [a])) (makeKey (xs @ b # rest)) \<longleftrightarrow>
            prefix (seg_str a) (seg_str b))
       \<and> (pattern_free (makeKey (xs @ [a])) \<longrightarrow>
            ((makeKey (xs @ b # rest), v) \<in> set (kvList (xs @ [a]) w) \<longleftrightarrow>
               (makeKey (xs @ b # rest), v) \<in> set (kv_data w) \<and> prefix (seg_str a) (seg_str b)))"
proof -
  have "prefix (makeKey (xs @ [a])) (makeKey (xs @ b # rest))
          \<longleftrightarrow> prefix (seg_str a) (makeKey (b # rest))"
    by (simp add: makeKey_append [of xs a "[]"] makeKey_append [of xs b rest]) (simp add: makeKey_def)
  also have "\<dots> \<longleftrightarrow> prefix (seg_str a) (seg_str b)"
    using makeKey_Cons_cases [of b rest] prefix_colon_free [OF assms] by auto
  finally have enc: "prefix (makeKey (xs @ [a])) (makeKey (xs @ b # rest)) \<longleftrightarrow>
                       prefix (seg_str a) (seg_str b)" .
  then show ?thesis by (auto simp: kvList_plain)
qed

lemma sample_member_plain: "pattern_free (makeKey ([S ''cookies''] @ [S ''1'']))"
  by (simp add: pattern_free_def makeKey_def)

theorem sibling_prefix_iff_witness:
  "colon_free (seg_str (S ''1''))
   \<and> pattern_free (makeKey ([S ''cookies''] @ [S ''1'']))
   \<and> prefix (makeKey ([S ''cookies''] @ [S ''1''])) (makeKey ([S ''cookies''] @ S ''10'' # []))
   \<and> \<not> prefix (makeKey ([S ''cookies''] @ [S ''1''])) (makeKey ([S ''cookies''] @ S ''20'' # [S ''x'']))
   \<and> (makeKey ([S ''cookies''] @ S ''10'' # []), VCookie (sample_cookie ''10'' False))
        \<in> set (kvList ([S ''cookies''] @ [S ''1''])
                 (sample_world [(''cookies:10'', VCookie (sample_cookie ''10'' False))]))"
proof -
  have c: "colon_free (seg_str (S ''1''))" by (simp add: colon_free_def)
  note t1 = sibling_prefix_iff [OF c, of "[S ''cookies'']" "S ''10''" "[]"
      "VCookie (sample_cookie ''10'' False)"
      "sample_world [(''cookies:10'', VCookie (sample_cookie ''10'' False))]"]
  note t2 = sibling_prefix_iff [OF c, of "[S ''cookies'']" "S ''20''" "[S ''x'']"]
  have m: "(makeKey ([S ''cookies''] @ S ''10'' # []), VCookie (sample_cookie ''10'' False))
             \<in> set (kv_data (sample_world [(''cookies:10'', VCookie (sample_cookie ''10'' False))]))"
    by (simp add: sample_world_def makeKey_def)
  have p: "prefix (seg_str (S ''1'')) (seg_str (S ''10''))"
    "\<not> prefix (seg_str (S ''1'')) (seg_str (S ''20''))"
    by simp_all
  from t1 t2 c sample_member_plain m p show ?thesis by blast
qed

text \<open>
  Claim C4 as stated fails: the encoded form of \<open>["cookies", "1"]\<close> is a string prefix of the
  encoded form of its sibling \<open>["cookies", "10"]\<close>, and the scan for the first returns the
  row of the second; the same with numeric segments.
\<close>

theorem sibling_prefix_counterexample:
  "prefix (makeKey [S ''cookies'', S ''1'']) (makeKey [S ''cookies'', S ''10''])
   \<and> kvList [S ''cookies'', S ''1'']
        (sample_world [(''cookies:1'', VCookie (sample_cookie ''1'' False)),
                       (''cookies:10'', VCookie (sample_cookie ''10'' False))])
       = [(''cookies:1'', VCookie (sample_cookie ''1'' False)),
          (''cookies:10'', VCookie (sample_cookie ''10'' False))]
   \<and> prefix (makeKey [S ''logs'', N 1]) (makeKey [S ''logs'', N 10, S ''x''])"
  by (simp add: makeKey_def kvList_def sample_world_def show_int_def digits.simps digit_def)

section \<open>The cookie invariant\<close>

lemma set_upsert_subset: "set (upsert k v rows) \<subseteq> insert (k, v) (set rows)"
  by (induction rows) auto

lemma upsert_mem: "(k, v) \<in> set (upsert k v rows)"
  by (induction rows) auto

lemma cookiesInv_Date_now [simp]: "cookiesInv cfg (snd (Date_now w)) = cookiesInv cfg w"
  by (simp add: cookiesInv_def Date_now_def)

lemma cookiesInv_randomUUID [simp]: "cookiesInv cfg (snd (randomUUID w)) = cookiesInv cfg w"
  by (simp add: cookiesInv_def randomUUID_def)

lemma cookiesInv_kvSet_intro:
  assumes "cookiesInv cfg w" "cookieInv cfg c"
  shows "cookiesInv cfg (kvSet key (VCookie c) w)"
  using assms set_upsert_subset [of "makeKey key" "VCookie c" "kv_data w"]
  by (fastforce simp: cookiesInv_def kvSet_def Let_def list_all_iff)

lemma cookiesInv_kvSet_elim:
  assumes "cookiesInv cfg (kvSet key (VCookie c) w)"
  shows "cookieInv cfg c"
  using assms upsert_mem [of "makeKey key" "VCookie c" "kv_data w"]
  by (fastforce simp: cookiesInv_def kvSet_def Let_def list_all_iff)

lemma cookiesInv_update_iff:
  assumes "cookiesInv cfg w"
  shows "cookiesInv cfg (snd (CookieDB_update cid p w)) \<longleftrightarrow>
           (\<forall>c. fst (CookieDB_get cid w) = Some c \<longrightarrow> cookieInv cfg (spreadCookie c p))"
proof (cases "fst (CookieDB_get cid w)")
  case None
  then have "CookieDB_get cid w = (None, w)" by (simp add: CookieDB_get_def)
  then show ?thesis using assms by (simp add: CookieDB_update_def)
next
  case (Some c)
  have inv: "cookieInv cfg ((spreadCookie c p)\<lparr>c_updatedAt := t\<rparr>) = cookieInv cfg (spreadCookie c p)" for t
    by (simp add: cookieInv_def)
  have w1: "cookiesInv cfg (snd (Date_now w))" using assms by simp
  show ?thesis
  proof
    assume "cookiesInv cfg (snd (CookieDB_update cid p w))"
    then have "cookieInv cfg ((spreadCookie c p)\<lparr>c_updatedAt := fst (Date_now w)\<rparr>)"
      unfolding CookieDB_update_Some [OF Some] snd_conv by (rule cookiesInv_kvSet_elim)
    then show "\<forall>c. fst (CookieDB_get cid w) = Some c \<longrightarrow> cookieInv cfg (spreadCookie c p)"
      by (simp add: Some inv)
  next
    assume "\<forall>c. fst (CookieDB_get cid w) = Some c \<longrightarrow> cookieInv cfg (spreadCookie c p)"
    then have "cookieInv cfg ((spreadCookie c p)\<lparr>c_updatedAt := fst (Date_now w)\<rparr>)"
      by (simp add: Some inv)
    then show "cookiesInv cfg (snd (CookieDB_update cid p w))"
      unfolding CookieDB_update_Some [OF Some] snd_conv by (rule cookiesInv_kvSet_intro [OF w1])
  qed
qed

lemma cookiesInv_add_iff:
  assumes "cookiesInv cfg w"
  shows "cookiesInv cfg (snd (CookieDB_add ci w)) \<longleftrightarrow>
           (ci_isValid ci = (ci_failCount ci < MAX_FAIL_NUM cfg))"
proof -
  obtain u w1 where u: "randomUUID w = (u, w1)" by (cases "randomUUID w")
  obtain t1 w2 where t1: "Date_now w1 = (t1, w2)" by (cases "Date_now w1")
  obtain t2 w3 where t2: "Date_now w2 = (t2, w3)" by (cases "Date_now w2")
  let ?c = "\<lparr>c_id = u, c_value = ci_value ci, c_isValid = ci_isValid ci,
                       c_failCount = ci_failCount ci, c_isDefault = ci_isDefault ci,
                       c_createdAt = t1, c_updatedAt = t2\<rparr>"
  have w3: "cookiesInv cfg w3"
    using assms u t1 t2 cookiesInv_randomUUID [of cfg w] cookiesInv_Date_now [of cfg w1]
      cookiesInv_Date_now [of cfg w2] by simp
  have add: "snd (CookieDB_add ci w) = kvSet (CookieDB_PREFIX @ [S u]) (VCookie ?c) w3"
    by (simp add: CookieDB_add_def u t1 t2 Let_def)
  have "cookieInv cfg ?c \<longleftrightarrow> (ci_isValid ci = (ci_failCount ci < MAX_FAIL_NUM cfg))"
    by (simp add: cookieInv_def)
  then show ?thesis
    using cookiesInv_kvSet_intro [OF w3, of ?c] cookiesInv_kvSet_elim [of cfg _ ?c w3]
    unfolding add by blast
qed

text \<open>
  Claim C5, as amended. From a world in which every stored cookie satisfies
  \<open>isValid = (failCount < MAX_FAIL_NUM)\<close>: \<open>incrementFailCount\<close> always leads to such a world;
  \<open>resetFailCount\<close> does exactly when the threshold is positive or no cookie is stored under
  the id; \<open>update\<close> does exactly when the stored cookie with the patch spread over it
  satisfies the invariant, and \<open>add\<close> exactly when the supplied \<open>isValid\<close> and \<open>failCount\<close>
  satisfy it: both write the caller's fields as they are.
\<close>

theorem cookie_invariant_by_operation:
  assumes "cookiesInv cfg w"
  shows "cookiesInv cfg (CookieDB_incrementFailCount cfg cid w)
       \<and> (cookiesInv cfg (CookieDB_resetFailCount cid w) \<longleftrightarrow>
            (0 < MAX_FAIL_NUM cfg \<or> fst (CookieDB_get cid w) = None))
       \<and> (cookiesInv cfg (snd (CookieDB_update cid p w)) \<longleftrightarrow>
            (\<forall>c. fst (CookieDB_get cid w) = Some c \<longrightarrow> cookieInv cfg (spreadCookie c p)))
       \<and> (cookiesInv cfg (snd (CookieDB_add ci w)) \<longleftrightarrow>
            (ci_isValid ci = (ci_failCount ci < MAX_FAIL_NUM cfg)))"
proof (intro conjI)
  show "cookiesInv cfg (CookieDB_incrementFailCount cfg cid w)"
  proof (cases "fst (CookieDB_get cid w)")
    case None
    then have "CookieDB_get cid w = (None, w)" by (simp add: CookieDB_get_def)
    then show ?thesis using assms by (simp add: CookieDB_incrementFailCount_def)
  next
    case (Some c)
    show ?thesis
      unfolding CookieDB_incrementFailCount_Some [OF Some] cookiesInv_update_iff [OF assms]
      by (simp add: Some spreadCookie_def noCookiePatch_def cookieInv_def)
  qed
  show "cookiesInv cfg (CookieDB_resetFailCount cid w) \<longleftrightarrow>
          (0 < MAX_FAIL_NUM cfg \<or> fst (CookieDB_get cid w) = None)"
    unfolding CookieDB_resetFailCount_def cookiesInv_update_iff [OF assms]
    by (cases "fst (CookieDB_get cid w)") (simp_all add: spreadCookie_def noCookiePatch_def cookieInv_def)
  show "cookiesInv cfg (snd (CookieDB_update cid p w)) \<longleftrightarrow>
          (\<forall>c. fst (CookieDB_get cid w) = Some c \<longrightarrow> cookieInv cfg (spreadCookie c p))"
    by (rule cookiesInv_update_iff [OF assms])
  show "cookiesInv cfg (snd (CookieDB_add ci w)) \<longleftrightarrow>
          (ci_isValid ci = (ci_failCount ci < MAX_FAIL_NUM cfg))"
    by (rule cookiesInv_add_iff [OF assms])
qed

lemma sample_cookiesInv: "cookiesInv sample_config (sample_world sample_rows)"
  by (simp add: cookiesInv_def cookieInv_def sample_simps)

theorem cookie_invariant_by_operation_witness:
  "cookiesInv sample_config (sample_world sample_rows)
   \<and> cookiesInv sample_config (CookieDB_incrementFailCount sample_config ''a'' (sample_world sample_rows))
   \<and> cookiesInv sample_config (CookieDB_resetFailCount ''a'' (sample_world sample_rows))
   \<and> cookiesInv sample_config
        (snd (CookieDB_update ''a'' (noCookiePatch\<lparr>cp_value := Some ''w''\<rparr>) (sample_world sample_rows)))
   \<and> cookiesInv sample_config
        (snd (CookieDB_add \<lparr>ci_value = ''n'', ci_isValid = True, ci_failCount = 0, ci_isDefault = False\<rparr>
               (sample_world sample_rows)))"
  using cookie_invariant_by_operation [OF sample_cookiesInv, of "''a''"
      "noCookiePatch\<lparr>cp_value := Some ''w''\<rparr>"
      "\<lparr>ci_value = ''n'', ci_isValid = True, ci_failCount = 0, ci_isDefault = False\<rparr>"]
    sample_cookiesInv
  by (simp add: sample_simps spreadCookie_def noCookiePatch_def cookieInv_def)

text \<open>
  Claim C5 as stated fails for \<open>update\<close>: the patch \<open>{isValid: false}\<close> on a fresh cookie
  leaves \<open>failCount = 0\<close> under the threshold 3 with \<open>isValid = false\<close>.
\<close>

theorem update_breaks_cookie_invariant:
  "cookiesInv sample_config (sample_world sample_rows)
   \<and> \<not> cookiesInv sample_config
         (snd (CookieDB_update ''a'' (noCookiePatch\<lparr>cp_isValid := Some False\<rparr>)
                (sample_world sample_rows)))"
  by (simp add: cookiesInv_def cookieInv_def sample_simps CookieDB_update_def Date_now_def kvSet_def
      spreadCookie_def noCookiePatch_def Let_def)

section \<open>The model-mapping store\<close>

lemma kvGet_kvSet_distinct:
  assumes "distinct (map fst (kv_data w))"
  shows "kvGet key (kvSet key v w) = Some v"
proof -
  have "length (filter (\<lambda>row. fst row = k) rows) \<le> 1" if "distinct (map fst rows)" for k and rows :: "(string \<times> jsonb) list"
    using that by (induction rows) (auto simp: filter_empty_conv image_iff)
  from this [OF assms, of "makeKey key"]
  have "tl (filter (\<lambda>row. fst row = makeKey key) (kv_data w)) = []"
    by (cases "filter (\<lambda>row. fst row = makeKey key) (kv_data w)") auto
  then show ?thesis
    by (simp add: kvGet_def kvSet_def Let_def filter_key_upsert_same)
qed

text \<open>
  Claim C8, as amended. \<open>ModelMappingDB.get\<close> follows the pattern of the settings store (the
  stored list, or the default when nothing is stored), but \<open>ModelMappingDB.update\<close> does not
  read or merge: it issues one upsert of the supplied list and returns nothing, and in a table
  with one row per key a following \<open>get\<close> returns exactly the supplied list.
\<close>

theorem model_mapping_update_replaces:
  assumes "distinct (map fst (kv_data w))"
  shows "ModelMappingDB_get cfg (ModelMappingDB_update mappings w)
           = (mappings, ModelMappingDB_update mappings w)
       \<and> writes (ModelMappingDB_update mappings w)
           = writes w @ [Upsert ''settings:models'' (VModels mappings)]
       \<and> (kvGet ModelMappingDB_KEY w = None \<longrightarrow>
            ModelMappingDB_get cfg w = (DEFAULT_MODELS_MAPS cfg, w))"
  using assms
  by (simp add: ModelMappingDB_get_def ModelMappingDB_update_def kvGet_kvSet_distinct)
     (simp add: kvSet_def ModelMappingDB_KEY_def makeKey_def Let_def)

theorem model_mapping_update_replaces_witness:
  "distinct (map fst (kv_data (sample_world sample_models_rows)))
   \<and> fst (ModelMappingDB_get sample_config
            (ModelMappingDB_update [[(''name'', JStr ''c'')]] (sample_world sample_models_rows)))
       = [[(''name'', JStr ''c'')]]
   \<and> kvGet ModelMappingDB_KEY (sample_world sample_rows) = None
   \<and> fst (ModelMappingDB_get sample_config (sample_world sample_rows)) = [[(''name'', JStr ''m'')]]"
  using model_mapping_update_replaces [of "sample_world sample_models_rows" sample_config
      "[[(''name'', JStr ''c'')]]"]
    model_mapping_update_replaces [of "sample_world sample_rows" sample_config "[]"]
  by (simp add: sample_simps sample_models_rows_def ModelMappingDB_KEY_def)

text \<open>
  Claim C8 as stated fails: with two mappings stored, the update of the specification with
  an empty list keeps both, while the update of the source leaves the empty list.
\<close>

theorem model_mapping_update_not_merge:
  "fst (ModelMappingDB_get sample_config (sample_world sample_models_rows))
     = [[(''name'', JStr ''a'')], [(''name'', JStr ''b'')]]
   \<and> fst (ModelMappingDB_get sample_config
            (snd (ModelMappingDB_update_as_specified sample_config [] (sample_world sample_models_rows))))
       = [[(''name'', JStr ''a'')], [(''name'', JStr ''b'')]]
   \<and> fst (ModelMappingDB_get sample_config
            (ModelMappingDB_update [] (sample_world sample_models_rows)))
       = []"
  by (simp add: ModelMappingDB_get_def ModelMappingDB_update_def ModelMappingDB_update_as_specified_def
      spreadList_def kvGet_def kvSet_def makeKey_def ModelMappingDB_KEY_def sample_world_def
      sample_models_rows_def Let_def)

section \<open>Decimal text of numbers and log keys\<close>

lemma digit_code: "d < 10 \<Longrightarrow> of_char (digit d) = (48 + d :: nat)"
proof -
  assume "d < 10"
  then have "d = 0 \<or> d = 1 \<or> d = 2 \<or> d = 3 \<or> d = 4 \<or> d = 5 \<or> d = 6 \<or> d = 7
    \<or> d = 8 \<or> d = 9" by arith
  then show ?thesis by (elim disjE) (simp_all add: digit_def)
qed

lemma digit_inj: "a < 10 \<Longrightarrow> b < 10 \<Longrightarrow> digit a = digit b \<Longrightarrow> a = b"
proof -
  assume a: "a < 10" and b: "b < 10" and eq: "digit a = digit b"
  have "48 + a = (of_char (digit a) :: nat)" using a by (simp only: digit_code)
  also have "\<dots> = of_char (digit b)" by (simp only: eq)
  also have "\<dots> = 48 + b" using b by (simp only: digit_code)
  finally show "a = b" by simp
qed

lemma digit_not_special: "d < 10 \<Longrightarrow> digit d \<noteq> CHR '':'' \<and> digit d \<noteq> CHR ''-''"
  using digit_code [of d] by auto

lemma digits_nonempty: "digits n \<noteq> []"
  by (subst digits.simps) simp

lemma digits_chars: "c \<in> set (digits n) \<Longrightarrow> c \<noteq> CHR '':'' \<and> c \<noteq> CHR ''-''"
proof (induction n rule: digits.induct)
  case (1 n)
  show ?case
  proof (cases "n < 10")
    case True
    with "1.prems" have "c = digit n" by (subst (asm) digits.simps) simp
    with True show ?thesis using digit_not_special by simp
  next
    case False
    with "1.prems" have "c \<in> set (digits (n div 10)) \<or> c = digit (n mod 10)"
      by (subst (asm) digits.simps) auto
    then show ?thesis using "1.IH" [OF False] digit_not_special [of "n mod 10"] by auto
  qed
qed

lemma digits_inj: "digits n = digits m \<Longrightarrow> n = m"
proof (induction n arbitrary: m rule: digits.induct)
  case (1 n)
  show ?case
  proof (cases "n < 10")
    case n: True
    show ?thesis
    proof (cases "m < 10")
      case True
      with n "1.prems" show ?thesis
        by (simp add: digits.simps [of n] digits.simps [of m] digit_inj)
    next
      case False
      with n "1.prems" digits_nonempty [of "m div 10"] show ?thesis
        by (simp add: digits.simps [of n] digits.simps [of m])
    qed
  next
    case n: False
    show ?thesis
    proof (cases "m < 10")
      case True
      with n "1.prems" digits_nonempty [of "n div 10"] show ?thesis
        by (simp add: digits.simps [of n] digits.simps [of m])
    next
      case False
      with n "1.prems" have "digits (n div 10) = digits (m div 10)" "digit (n mod 10) = digit (m mod 10)"
        by (simp_all add: digits.simps [of n] digits.simps [of m])
      then have "n div 10 = m div 10" "n mod 10 = m mod 10"
        using "1.IH" [OF n] digit_inj [of "n mod 10" "m mod 10"] by simp_all
      then show ?thesis by (metis div_mult_mod_eq)
    qed
  qed
qed

lemma show_int_chars: "CHR '':'' \<notin> set (show_int i)"
  using digits_chars by (auto simp: show_int_def)

lemma show_int_inj: "show_int i = show_int j \<Longrightarrow> i = j"
proof -
  assume eq: "show_int i = show_int j"
  have no_minus: "digits n \<noteq> CHR ''-'' # s" for n s
    using digits_chars [of "CHR ''-''" n] by auto
  show ?thesis
  proof (cases "i < 0")
    case i: True
    show ?thesis
    proof (cases "j < 0")
      case True
      with i eq have "nat (- i) = nat (- j)" by (simp add: show_int_def digits_inj)
      with i True show ?thesis by simp
    next
      case False
      with i eq no_minus [of "nat j" "digits (nat (- i))"] show ?thesis
        by (auto simp: show_int_def)
    qed
  next
    case i: False
    show ?thesis
    proof (cases "j < 0")
      case True
      with i eq no_minus [of "nat i" "digits (nat (- j))"] show ?thesis
        by (auto simp: show_int_def)
    next
      case False
      with i eq have "nat i = nat j" by (simp add: show_int_def digits_inj)
      with i False show ?thesis by simp
    qed
  qed
qed

lemma colon_split_unique:
  assumes "CHR '':'' \<notin> set x" "CHR '':'' \<notin> set y" "x @ CHR '':'' # s = y @ CHR '':'' # t"
  shows "x = y \<and> s = t"
proof -
  have "takeWhile (\<lambda>c. c \<noteq> CHR '':'') (x @ CHR '':'' # s) = x"
    using assms(1) by (auto simp: takeWhile_tail)
  moreover have "takeWhile (\<lambda>c. c \<noteq> CHR '':'') (y @ CHR '':'' # t) = y"
    using assms(2) by (auto simp: takeWhile_tail)
  ultimately have "x = y" using assms(3) by simp
  with assms(3) show ?thesis by simp
qed

lemma logKey_eq: "logKey l = ''logs:'' @ show_int (l_timestamp l) @ CHR '':'' # l_id l"
  by (simp add: logKey_def makeKey_def RequestLogDB_PREFIX_def)

lemma logKey_prefix: "prefix ''logs'' (logKey l)"
  by (simp add: logKey_eq)

lemma logKey_inj: "logKey l = logKey l' \<longleftrightarrow> l_timestamp l = l_timestamp l' \<and> l_id l = l_id l'"
  using colon_split_unique [OF show_int_chars show_int_chars, of "l_timestamp l" "l_id l" "l_timestamp l'" "l_id l'"]
    show_int_inj [of "l_timestamp l" "l_timestamp l'"]
  by (auto simp: logKey_eq)

section \<open>The retention cap of the log store\<close>

lemma makeKey_logs [simp]: "makeKey RequestLogDB_PREFIX = ''logs''"
  by (simp add: makeKey_def RequestLogDB_PREFIX_def)

lemma makeKey_logKey [simp]:
  "makeKey (RequestLogDB_PREFIX @ [N (l_timestamp l), S (l_id l)]) = logKey l"
  by (simp add: logKey_def)

lemma kv_data_fold_kvDelete:
  "kv_data (fold (\<lambda>log. kvDelete (RequestLogDB_PREFIX @ [N (l_timestamp log), S (l_id log)])) ls w)
     = filter (\<lambda>row. fst row \<notin> logKey ` set ls) (kv_data w)"
proof (induction ls arbitrary: w)
  case Nil
  then show ?case by simp
next
  case (Cons l ls)
  show ?case
    by (simp only: fold_simps Cons.IH kv_data_kvDelete makeKey_logKey)
       (auto intro!: filter_cong)
qed

lemma kv_data_cleanup:
  "kv_data (RequestLogDB_cleanup cfg w) =
     (if length (logsOf (kv_data w)) \<le> MAX_REQUEST_RECORD_NUM cfg then kv_data w
      else filter (\<lambda>row. fst row \<notin> logKey ` set (drop (MAX_REQUEST_RECORD_NUM cfg)
                     (sort_key (\<lambda>l. - l_timestamp l) (logsOf (kv_data w))))) (kv_data w))"
  by (simp add: RequestLogDB_cleanup_def Let_def kvList_collection logsOf_def kv_data_fold_kvDelete)

lemma kv_data_add:
  "kv_data (RequestLogDB_add cfg a w) =
     kv_data (RequestLogDB_cleanup cfg
       (w\<lparr>kv_data := upsert (logKey (withId a (uuid_src w (uuid_n w))))
                        (VLog (withId a (uuid_src w (uuid_n w)))) (kv_data w)\<rparr>))"
  by (simp add: RequestLogDB_add_def randomUUID_def Let_def kvSet_def withId_def kv_data_cleanup)

lemma asLog_Some: "asLog v = Some l \<longleftrightarrow> v = VLog l"
  by (cases v) auto

lemma logRow_iff: "logRow row \<longleftrightarrow> (\<exists>l. row = (logKey l, VLog l))"
  by (cases row) (auto simp: logRow_def asLog_Some split: option.splits)

lemma logRows_as_map:
  "\<forall>row\<in>set L. logRow row \<Longrightarrow>
     L = map (\<lambda>l. (logKey l, VLog l)) (List.map_filter (\<lambda>item. asLog (snd item)) L)"
  by (induction L) (auto simp: logRow_iff)

lemma logsInv_rows:
  assumes "logsInv w"
  shows "filter (\<lambda>row. prefix ''logs'' (fst row)) (kv_data w)
           = map (\<lambda>l. (logKey l, VLog l)) (logsOf (kv_data w))"
    and "distinct (map logKey (logsOf (kv_data w)))"
proof -
  let ?L = "filter (\<lambda>row. prefix ''logs'' (fst row)) (kv_data w)"
  have "\<forall>row\<in>set ?L. logRow row"
    using assms by (auto simp: logsInv_def list_all_iff)
  from logRows_as_map [OF this]
  show eq: "?L = map (\<lambda>l. (logKey l, VLog l)) (logsOf (kv_data w))"
    by (simp add: logsOf_def)
  have "distinct (map fst ?L)"
    using assms by (simp add: logsInv_def distinct_map_filter)
  then show "distinct (map logKey (logsOf (kv_data w)))"
    by (subst (asm) eq) (simp add: comp_def)
qed

lemma filter_not_in_drop:
  "distinct xs \<Longrightarrow> filter (\<lambda>x. x \<notin> set (drop n xs)) xs = take n xs"
proof -
  assume d: "distinct xs"
  have disj: "set (take n xs) \<inter> set (drop n xs) = {}"
    using d by (rule set_take_disj_set_drop_if_distinct) simp
  have "filter (\<lambda>x. x \<notin> set (drop n xs)) xs
          = filter (\<lambda>x. x \<notin> set (drop n xs)) (take n xs)
            @ filter (\<lambda>x. x \<notin> set (drop n xs)) (drop n xs)"
    by (metis append_take_drop_id filter_append)
  also have "filter (\<lambda>x. x \<notin> set (drop n xs)) (take n xs) = take n xs"
    using disj by (auto simp: filter_id_conv)
  also have "filter (\<lambda>x. x \<notin> set (drop n xs)) (drop n xs) = []"
    by (simp add: filter_empty_conv)
  finally show ?thesis by simp
qed

lemma length_filter_perm:
  "mset xs = mset ys \<Longrightarrow> length (filter P xs) = length (filter P ys)"
  by (metis mset_filter size_mset)

lemma kept_after_drop:
  assumes "distinct (map key logs)"
  shows "length (filter (\<lambda>l. key l \<notin> key ` set (drop n (sort_key f logs))) logs)
           = min n (length logs)"
proof -
  let ?s = "sort_key f logs"
  have inj: "inj_on key (set logs)" and d: "distinct logs"
    using assms by (simp_all add: distinct_map)
  have sub: "set (drop n ?s) \<subseteq> set logs"
    using set_drop_subset [of n ?s] by simp
  have "filter (\<lambda>l. key l \<notin> key ` set (drop n ?s)) logs = filter (\<lambda>l. l \<notin> set (drop n ?s)) logs"
    using inj sub by (intro filter_cong refl) (auto simp: inj_on_def)
  also have "length \<dots> = length (filter (\<lambda>l. l \<notin> set (drop n ?s)) ?s)"
    by (rule length_filter_perm) simp
  also have "\<dots> = length (take n ?s)"
    using d by (simp add: filter_not_in_drop)
  finally show ?thesis by simp
qed

lemma count_eq: "fst (RequestLogDB_count w) = length (filter (\<lambda>row. prefix ''logs'' (fst row)) (kv_data w))"
  by (simp add: RequestLogDB_count_def kvList_collection)

lemma logsInv_filter:
  assumes "logsInv w" "kv_data w' = filter P (kv_data w)"
  shows "logsInv w'"
  using assms by (auto simp: logsInv_def list_all_iff distinct_map_filter)

lemma cleanup_inv_count:
  assumes inv: "logsInv w"
  shows "logsInv (RequestLogDB_cleanup cfg w)"
    and "fst (RequestLogDB_count (RequestLogDB_cleanup cfg w))
           = min (MAX_REQUEST_RECORD_NUM cfg) (fst (RequestLogDB_count w))"
proof -
  let ?n = "MAX_REQUEST_RECORD_NUM cfg"
  let ?logs = "logsOf (kv_data w)"
  let ?D = "logKey ` set (drop ?n (sort_key (\<lambda>l. - l_timestamp l) ?logs))"
  note rows = logsInv_rows [OF inv]
  have len: "fst (RequestLogDB_count w) = length ?logs"
    by (simp add: count_eq rows(1))
  show "logsInv (RequestLogDB_cleanup cfg w)"
  proof (cases "length ?logs \<le> ?n")
    case True
    then have "kv_data (RequestLogDB_cleanup cfg w) = filter (\<lambda>row. True) (kv_data w)"
      by (simp add: kv_data_cleanup)
    then show ?thesis by (rule logsInv_filter [OF inv])
  next
    case False
    then have "kv_data (RequestLogDB_cleanup cfg w) = filter (\<lambda>row. fst row \<notin> ?D) (kv_data w)"
      by (simp add: kv_data_cleanup)
    then show ?thesis by (rule logsInv_filter [OF inv])
  qed
  show "fst (RequestLogDB_count (RequestLogDB_cleanup cfg w)) = min ?n (fst (RequestLogDB_count w))"
  proof (cases "length ?logs \<le> ?n")
    case True
    then show ?thesis by (simp add: count_eq kv_data_cleanup rows(1))
  next
    case False
    have "fst (RequestLogDB_count (RequestLogDB_cleanup cfg w))
            = length (filter (\<lambda>row. fst row \<notin> ?D) (filter (\<lambda>row. prefix ''logs'' (fst row)) (kv_data w)))"
      using False by (simp add: count_eq kv_data_cleanup) (metis (mono_tags, lifting) filter_cong)
    also have "\<dots> = length (filter (\<lambda>l. logKey l \<notin> ?D) ?logs)"
      by (simp add: rows(1) filter_map comp_def)
    also have "\<dots> = min ?n (length ?logs)"
      by (rule kept_after_drop [OF rows(2)])
    finally show ?thesis by (simp add: len)
  qed
qed

lemma map_fst_upsert:
  "map fst (upsert k v rows) = (if k \<in> fst ` set rows then map fst rows else map fst rows @ [k])"
  by (induction rows) auto

lemma upsert_fresh: "k \<notin> fst ` set rows \<Longrightarrow> upsert k v rows = rows @ [(k, v)]"
  by (induction rows) auto

lemma logsInv_upsert:
  assumes "logsInv w" "kv_data w' = upsert (logKey l) (VLog l) (kv_data w)"
  shows "logsInv w'"
proof -
  have "distinct (map fst (kv_data w'))"
    using assms by (simp add: logsInv_def map_fst_upsert)
  moreover have "logRow (logKey l, VLog l)" by (simp add: logRow_def)
  then have "\<forall>row\<in>set (kv_data w'). prefix ''logs'' (fst row) \<longrightarrow> logRow row"
    using assms set_upsert_subset [of "logKey l" "VLog l" "kv_data w"]
    by (auto simp: logsInv_def list_all_iff)
  ultimately show ?thesis by (simp add: logsInv_def list_all_iff)
qed

lemma RequestLogDB_add_as_cleanup:
  "RequestLogDB_add cfg a w =
     RequestLogDB_cleanup cfg
       (kvSet (RequestLogDB_PREFIX @ [N (li_timestamp a), S (uuid_src w (uuid_n w))])
          (VLog (withId a (uuid_src w (uuid_n w)))) (snd (randomUUID w)))"
  by (simp add: RequestLogDB_add_def randomUUID_def Let_def withId_def)

lemma add_inv_count:
  assumes "logsInv w"
  shows "logsInv (RequestLogDB_add cfg a w)"
    and "fst (RequestLogDB_count (RequestLogDB_add cfg a w)) \<le> MAX_REQUEST_RECORD_NUM cfg"
proof -
  let ?l = "withId a (uuid_src w (uuid_n w))"
  let ?w2 = "kvSet (RequestLogDB_PREFIX @ [N (li_timestamp a), S (uuid_src w (uuid_n w))])
               (VLog ?l) (snd (randomUUID w))"
  have "kv_data ?w2 = upsert (logKey ?l) (VLog ?l) (kv_data w)"
    by (simp add: kvSet_def Let_def randomUUID_def logKey_def withId_def)
  with assms have inv2: "logsInv ?w2" by (rule logsInv_upsert)
  show "logsInv (RequestLogDB_add cfg a w)"
    unfolding RequestLogDB_add_as_cleanup by (rule cleanup_inv_count(1) [OF inv2])
  show "fst (RequestLogDB_count (RequestLogDB_add cfg a w)) \<le> MAX_REQUEST_RECORD_NUM cfg"
    unfolding RequestLogDB_add_as_cleanup cleanup_inv_count(2) [OF inv2] by simp
qed

lemma fold_add_inv_count:
  assumes "logsInv w"
  shows "logsInv (fold (RequestLogDB_add cfg) as w)
       \<and> (as \<noteq> [] \<longrightarrow>
            fst (RequestLogDB_count (fold (RequestLogDB_add cfg) as w)) \<le> MAX_REQUEST_RECORD_NUM cfg)"
  using assms
proof (induction as arbitrary: w rule: rev_induct)
  case Nil
  then show ?case by simp
next
  case (snoc a as)
  then have "logsInv (fold (RequestLogDB_add cfg) as w)" by simp
  from add_inv_count [OF this, of cfg a] show ?case by simp
qed

lemma logsOf_append: "logsOf (xs @ ys) = logsOf xs @ logsOf ys"
  by (simp add: logsOf_def List.map_filter_def)

lemma logsOf_log_row [simp]: "logsOf ((logKey l, VLog l) # rows) = l # logsOf rows"
  by (simp add: logsOf_def logKey_prefix)

lemma logsOf_Nil [simp]: "logsOf [] = []"
  by (simp add: logsOf_def)

lemma logsOf_empty:
  "filter (\<lambda>row. prefix ''logs'' (fst row)) rows = [] \<Longrightarrow> logsOf rows = []"
  by (simp add: logsOf_def)

lemma uuid_after_add [simp]:
  "uuid_src (RequestLogDB_add cfg a w) = uuid_src w"
  "uuid_n (RequestLogDB_add cfg a w) = uuid_n w + 1"
proof -
  have f: "uuid_src (fold (\<lambda>log. kvDelete (RequestLogDB_PREFIX @ [N (l_timestamp log), S (l_id log)])) ls v) = uuid_src v
         \<and> uuid_n (fold (\<lambda>log. kvDelete (RequestLogDB_PREFIX @ [N (l_timestamp log), S (l_id log)])) ls v) = uuid_n v"
    for ls v
    by (induction ls arbitrary: v) (simp_all add: kvDelete_def Let_def)
  have c: "uuid_src (RequestLogDB_cleanup cfg v) = uuid_src v \<and> uuid_n (RequestLogDB_cleanup cfg v) = uuid_n v" for v
    by (simp add: RequestLogDB_cleanup_def Let_def f)
  show "uuid_src (RequestLogDB_add cfg a w) = uuid_src w"
    "uuid_n (RequestLogDB_add cfg a w) = uuid_n w + 1"
    by (simp_all add: RequestLogDB_add_as_cleanup c kvSet_def Let_def randomUUID_def)
qed

lemma three_appends_rows:
  assumes cap: "MAX_REQUEST_RECORD_NUM cfg = 2"
    and empty: "kvList RequestLogDB_PREFIX w = []"
    and lt: "li_timestamp a1 < li_timestamp a2" "li_timestamp a2 < li_timestamp a3"
  shows "kv_data (RequestLogDB_add cfg a3 (RequestLogDB_add cfg a2 (RequestLogDB_add cfg a1 w)))
           = kv_data w @ [(logKey (withId a2 (uuid_src w (Suc (uuid_n w)))),
                            VLog (withId a2 (uuid_src w (Suc (uuid_n w))))),
                          (logKey (withId a3 (uuid_src w (Suc (Suc (uuid_n w))))),
                            VLog (withId a3 (uuid_src w (Suc (Suc (uuid_n w))))))]"
proof -
  let ?rows = "kv_data w"
  let ?l1 = "withId a1 (uuid_src w (uuid_n w))"
  let ?l2 = "withId a2 (uuid_src w (Suc (uuid_n w)))"
  let ?l3 = "withId a3 (uuid_src w (Suc (Suc (uuid_n w))))"
  let ?w1 = "RequestLogDB_add cfg a1 w"
  let ?w2 = "RequestLogDB_add cfg a2 ?w1"
  have none: "filter (\<lambda>row. prefix ''logs'' (fst row)) ?rows = []"
    using empty by (simp add: kvList_collection)
  then have fresh: "logKey l \<notin> fst ` set ?rows" for l
    using logKey_prefix [of l] by (auto simp: filter_empty_conv)
  have ts: "l_timestamp ?l1 < l_timestamp ?l2" "l_timestamp ?l2 < l_timestamp ?l3"
    using lt by (simp_all add: withId_def)
  then have ne: "logKey ?l1 \<noteq> logKey ?l2" "logKey ?l1 \<noteq> logKey ?l3" "logKey ?l2 \<noteq> logKey ?l3"
    by (auto simp: logKey_inj)
  have logs0: "logsOf ?rows = []" using none by (rule logsOf_empty)
  have r1: "kv_data ?w1 = ?rows @ [(logKey ?l1, VLog ?l1)]"
    by (simp add: kv_data_add kv_data_cleanup upsert_fresh [OF fresh] logsOf_append logs0 cap)
  have r2: "kv_data ?w2 = ?rows @ [(logKey ?l1, VLog ?l1), (logKey ?l2, VLog ?l2)]"
  proof -
    have "logKey ?l2 \<notin> fst ` set (?rows @ [(logKey ?l1, VLog ?l1)])"
      using fresh [of ?l2] ne by simp
    then have up: "upsert (logKey ?l2) (VLog ?l2) (?rows @ [(logKey ?l1, VLog ?l1)])
                     = ?rows @ [(logKey ?l1, VLog ?l1), (logKey ?l2, VLog ?l2)]"
      by (simp add: upsert_fresh)
    have "kv_data ?w2 = kv_data (RequestLogDB_cleanup cfg
            (?w1\<lparr>kv_data := upsert (logKey ?l2) (VLog ?l2) (kv_data ?w1)\<rparr>))"
      using kv_data_add [of cfg a2 ?w1] by simp
    also have "\<dots> = ?rows @ [(logKey ?l1, VLog ?l1), (logKey ?l2, VLog ?l2)]"
      by (simp add: kv_data_cleanup up r1 logsOf_append logs0 cap)
    finally show ?thesis .
  qed
  have "logKey ?l3 \<notin> fst ` set (?rows @ [(logKey ?l1, VLog ?l1), (logKey ?l2, VLog ?l2)])"
    using fresh [of ?l3] ne by simp
  then have up3: "upsert (logKey ?l3) (VLog ?l3)
                    (?rows @ [(logKey ?l1, VLog ?l1), (logKey ?l2, VLog ?l2)])
                  = ?rows @ [(logKey ?l1, VLog ?l1), (logKey ?l2, VLog ?l2), (logKey ?l3, VLog ?l3)]"
    by (simp add: upsert_fresh)
  have keep: "filter (\<lambda>row. fst row \<noteq> logKey ?l1) ?rows = ?rows"
    using fresh [of ?l1] by (force simp: filter_id_conv)
  have "kv_data (RequestLogDB_add cfg a3 ?w2) = kv_data (RequestLogDB_cleanup cfg
          (?w2\<lparr>kv_data := upsert (logKey ?l3) (VLog ?l3) (kv_data ?w2)\<rparr>))"
    using kv_data_add [of cfg a3 ?w2] by simp
  also have "\<dots> = ?rows @ [(logKey ?l2, VLog ?l2), (logKey ?l3, VLog ?l3)]"
    using ne ts by (simp add: kv_data_cleanup up3 r2 logsOf_append logs0 cap keep)
  finally show ?thesis .
qed

lemma empty_logs_inv:
  assumes "distinct (map fst (kv_data w))" "kvList RequestLogDB_PREFIX w = []"
  shows "logsInv w"
  using assms by (auto simp: logsInv_def kvList_collection list_all_iff filter_empty_conv)

section \<open>Bootstrap\<close>

lemma CookieDB_getAll_snd [simp]: "snd (CookieDB_getAll w) = w"
  by (simp add: CookieDB_getAll_def Let_def)

lemma ApiKeyDB_getAll_snd [simp]: "snd (ApiKeyDB_getAll w) = w"
  by (simp add: ApiKeyDB_getAll_def Let_def)

lemma initializeDatabase_phases:
  "initializeDatabase cfg w =
     (let w2 = (if fst (CookieDB_getAll w) = [] \<and> DEFAULT_CTO_COOKIES cfg \<noteq> []
                then seedCookies (DEFAULT_CTO_COOKIES cfg) w else w)
      in if fst (ApiKeyDB_getAll w2) = [] then seedApiKeys (DEFAULT_CHAT_APIKEYS cfg) w2 else w2)"
proof -
  have c: "CookieDB_getAll v = (fst (CookieDB_getAll v), v)" for v
    by (simp add: prod_eq_iff)
  have k: "ApiKeyDB_getAll v = (fst (ApiKeyDB_getAll v), v)" for v
    by (simp add: prod_eq_iff)
  show ?thesis
    unfolding initializeDatabase_def seedCookies_def seedApiKeys_def
    by (subst c, simp only: prod.case Let_def) (subst k, simp only: prod.case Let_def, simp)
qed

lemma CookieDB_add_world:
  "snd (CookieDB_add ci w) =
     w\<lparr>kv_data := upsert (makeKey (CookieDB_PREFIX @ [S (c_id (fst (CookieDB_add ci w)))]))
                     (VCookie (fst (CookieDB_add ci w))) (kv_data w),
       writes := writes w @ [cookieUpsert (fst (CookieDB_add ci w))],
       uuid_n := uuid_n w + 1, clock_n := clock_n w + 2\<rparr>"
  by (simp add: CookieDB_add_def randomUUID_def Date_now_def kvSet_def Let_def cookieUpsert_def)

lemma CookieDB_add_fields:
  "c_value (fst (CookieDB_add ci w)) = ci_value ci"
  "c_isValid (fst (CookieDB_add ci w)) = ci_isValid ci"
  "c_failCount (fst (CookieDB_add ci w)) = ci_failCount ci"
  "c_isDefault (fst (CookieDB_add ci w)) = ci_isDefault ci"
  "c_id (fst (CookieDB_add ci w)) = uuid_src w (uuid_n w)"
  by (simp_all add: CookieDB_add_def randomUUID_def Date_now_def Let_def)

lemma ApiKeyDB_add_world:
  "snd (ApiKeyDB_add ki w) =
     w\<lparr>kv_data := upsert (makeKey (ApiKeyDB_PREFIX @ [S (k_id (fst (ApiKeyDB_add ki w)))]))
                     (VApiKey (fst (ApiKeyDB_add ki w))) (kv_data w),
       writes := writes w @ [apiKeyUpsert (fst (ApiKeyDB_add ki w))],
       uuid_n := uuid_n w + 1, clock_n := clock_n w + 1\<rparr>"
  by (simp add: ApiKeyDB_add_def randomUUID_def Date_now_def kvSet_def Let_def apiKeyUpsert_def)

lemma ApiKeyDB_add_fields:
  "k_key (fst (ApiKeyDB_add ki w)) = ki_key ki"
  "k_isEnabled (fst (ApiKeyDB_add ki w)) = ki_isEnabled ki"
  "k_isDefault (fst (ApiKeyDB_add ki w)) = ki_isDefault ki"
  "k_requestCount (fst (ApiKeyDB_add ki w)) = 0"
  "k_id (fst (ApiKeyDB_add ki w)) = uuid_src w (uuid_n w)"
  by (simp_all add: ApiKeyDB_add_def randomUUID_def Date_now_def Let_def)

lemma seedCookies_writes:
  "\<exists>cs. writes (seedCookies vs w) = writes w @ map cookieUpsert cs
        \<and> map c_value cs = vs
        \<and> (\<forall>c\<in>set cs. c_isDefault c \<and> c_isValid c \<and> c_failCount c = 0)"
proof (induction vs arbitrary: w)
  case Nil
  show ?case by (simp add: seedCookies_def)
next
  case (Cons v vs)
  let ?ci = "\<lparr>ci_value = v, ci_isValid = True, ci_failCount = 0, ci_isDefault = True\<rparr>"
  let ?c = "fst (CookieDB_add ?ci w)"
  let ?w1 = "snd (CookieDB_add ?ci w)"
  from Cons.IH [of ?w1] obtain cs where cs: "writes (seedCookies vs ?w1) = writes ?w1 @ map cookieUpsert cs"
    "map c_value cs = vs" "\<forall>c\<in>set cs. c_isDefault c \<and> c_isValid c \<and> c_failCount c = 0"
    by blast
  have w1: "writes ?w1 = writes w @ [cookieUpsert ?c]"
    by (subst CookieDB_add_world) simp
  have a: "writes (seedCookies (v # vs) w) = writes w @ map cookieUpsert (?c # cs)"
    using cs(1) w1 by (simp add: seedCookies_def)
  have b: "map c_value (?c # cs) = v # vs"
    using cs(2) by (simp add: CookieDB_add_fields)
  have c: "\<forall>c\<in>set (?c # cs). c_isDefault c \<and> c_isValid c \<and> c_failCount c = 0"
    using cs(3) by (simp add: CookieDB_add_fields)
  show ?case by (rule exI [of _ "?c # cs"]) (intro conjI a b c)
qed

lemma seedApiKeys_writes:
  "\<exists>ks. writes (seedApiKeys keys w) = writes w @ map apiKeyUpsert ks
        \<and> map k_key ks = keys
        \<and> (\<forall>k\<in>set ks. k_isDefault k \<and> k_isEnabled k \<and> k_requestCount k = 0)"
proof (induction keys arbitrary: w)
  case Nil
  show ?case by (simp add: seedApiKeys_def)
next
  case (Cons key keys)
  let ?ki = "\<lparr>ki_key = key, ki_isEnabled = True, ki_isDefault = True\<rparr>"
  let ?k = "fst (ApiKeyDB_add ?ki w)"
  let ?w1 = "snd (ApiKeyDB_add ?ki w)"
  from Cons.IH [of ?w1] obtain ks where ks: "writes (seedApiKeys keys ?w1) = writes ?w1 @ map apiKeyUpsert ks"
    "map k_key ks = keys" "\<forall>k\<in>set ks. k_isDefault k \<and> k_isEnabled k \<and> k_requestCount k = 0"
    by blast
  have w1: "writes ?w1 = writes w @ [apiKeyUpsert ?k]"
    by (subst ApiKeyDB_add_world) simp
  have a: "writes (seedApiKeys (key # keys) w) = writes w @ map apiKeyUpsert (?k # ks)"
    using ks(1) w1 by (simp add: seedApiKeys_def)
  have b: "map k_key (?k # ks) = key # keys"
    using ks(2) by (simp add: ApiKeyDB_add_fields)
  have c: "\<forall>k\<in>set (?k # ks). k_isDefault k \<and> k_isEnabled k \<and> k_requestCount k = 0"
    using ks(3) by (simp add: ApiKeyDB_add_fields)
  show ?case by (rule exI [of _ "?k # ks"]) (intro conjI a b c)
qed

lemma asCookie_Some: "asCookie v = Some c \<longleftrightarrow> v = VCookie c"
  by (cases v) auto

lemma CookieDB_getAll_set:
  "set (fst (CookieDB_getAll w)) =
     {c. \<exists>k. (k, VCookie c) \<in> set (kv_data w) \<and> prefix (makeKey CookieDB_PREFIX) k}"
  apply (auto simp: CookieDB_getAll_def Let_def kvList_collection List.map_filter_def asCookie_Some image_iff)
  by (metis asCookie.simps(1) option.sel)

lemma filter_upsert_irrelevant:
  "\<not> P k \<Longrightarrow> filter (\<lambda>row. P (fst row)) (upsert k v rows) = filter (\<lambda>row. P (fst row)) rows"
  by (induction rows) auto

lemma cookie_key_prefixes:
  "prefix (makeKey CookieDB_PREFIX) (makeKey (CookieDB_PREFIX @ [S u]))"
  "\<not> prefix (makeKey ApiKeyDB_PREFIX) (makeKey (CookieDB_PREFIX @ [S u]))"
  by (simp_all add: makeKey_def CookieDB_PREFIX_def ApiKeyDB_PREFIX_def)

lemma apikey_key_prefixes:
  "prefix (makeKey ApiKeyDB_PREFIX) (makeKey (ApiKeyDB_PREFIX @ [S u]))"
  "\<not> prefix (makeKey CookieDB_PREFIX) (makeKey (ApiKeyDB_PREFIX @ [S u]))"
  by (simp_all add: makeKey_def CookieDB_PREFIX_def ApiKeyDB_PREFIX_def)

lemma kvList_after_cookie_add:
  "kvList ApiKeyDB_PREFIX (snd (CookieDB_add ci w)) = kvList ApiKeyDB_PREFIX w"
  by (subst CookieDB_add_world)
     (simp add: kvList_collection Let_def filter_upsert_irrelevant [where P = "prefix (makeKey ApiKeyDB_PREFIX)"]
        cookie_key_prefixes)

lemma kvList_after_apikey_add:
  "kvList CookieDB_PREFIX (snd (ApiKeyDB_add ki w)) = kvList CookieDB_PREFIX w"
  by (subst ApiKeyDB_add_world)
     (simp add: kvList_collection Let_def filter_upsert_irrelevant [where P = "prefix (makeKey CookieDB_PREFIX)"]
        apikey_key_prefixes)

lemma kvList_seedCookies: "kvList ApiKeyDB_PREFIX (seedCookies vs w) = kvList ApiKeyDB_PREFIX w"
  by (induction vs arbitrary: w) (simp_all add: seedCookies_def kvList_after_cookie_add)

lemma kvList_seedApiKeys: "kvList CookieDB_PREFIX (seedApiKeys ks w) = kvList CookieDB_PREFIX w"
  by (induction ks arbitrary: w) (simp_all add: seedApiKeys_def kvList_after_apikey_add)

lemma ApiKeyDB_getAll_seedCookies:
  "fst (ApiKeyDB_getAll (seedCookies vs w)) = fst (ApiKeyDB_getAll w)"
  by (simp add: ApiKeyDB_getAll_def Let_def kvList_seedCookies)

lemma CookieDB_getAll_seedApiKeys:
  "fst (CookieDB_getAll (seedApiKeys ks w)) = fst (CookieDB_getAll w)"
  by (simp add: CookieDB_getAll_def Let_def kvList_seedApiKeys)

lemma CookieDB_getAll_after_add: "fst (CookieDB_getAll (snd (CookieDB_add ci w))) \<noteq> []"
proof -
  let ?c = "fst (CookieDB_add ci w)"
  have "(makeKey (CookieDB_PREFIX @ [S (c_id ?c)]), VCookie ?c) \<in> set (kv_data (snd (CookieDB_add ci w)))"
    by (subst CookieDB_add_world) (simp add: upsert_mem)
  then have "?c \<in> set (fst (CookieDB_getAll (snd (CookieDB_add ci w))))"
    unfolding CookieDB_getAll_set using cookie_key_prefixes(1) by blast
  then show ?thesis by auto
qed

lemma ApiKeyDB_getAll_after_add: "fst (ApiKeyDB_getAll (snd (ApiKeyDB_add ki w))) \<noteq> []"
proof -
  let ?k = "fst (ApiKeyDB_add ki w)"
  have "(makeKey (ApiKeyDB_PREFIX @ [S (k_id ?k)]), VApiKey ?k) \<in> set (kv_data (snd (ApiKeyDB_add ki w)))"
    by (subst ApiKeyDB_add_world) (simp add: upsert_mem)
  then have "?k \<in> set (fst (ApiKeyDB_getAll (snd (ApiKeyDB_add ki w))))"
    unfolding ApiKeyDB_getAll_set using apikey_key_prefixes(1) by blast
  then show ?thesis by auto
qed

lemma seedCookies_nonempty: "vs \<noteq> [] \<Longrightarrow> fst (CookieDB_getAll (seedCookies vs w)) \<noteq> []"
  by (induction vs rule: rev_induct) (simp_all add: seedCookies_def CookieDB_getAll_after_add)

lemma seedApiKeys_nonempty: "ks \<noteq> [] \<Longrightarrow> fst (ApiKeyDB_getAll (seedApiKeys ks w)) \<noteq> []"
  by (induction ks rule: rev_induct) (simp_all add: seedApiKeys_def ApiKeyDB_getAll_after_add)

lemma seed_Nil [simp]: "seedCookies [] w = w" "seedApiKeys [] w = w"
  by (simp_all add: seedCookies_def seedApiKeys_def)

lemma initializeDatabase_noop:
  assumes "fst (CookieDB_getAll w) \<noteq> [] \<or> DEFAULT_CTO_COOKIES cfg = []"
    and "fst (ApiKeyDB_getAll w) \<noteq> [] \<or> DEFAULT_CHAT_APIKEYS cfg = []"
  shows "initializeDatabase cfg w = w"
  using assms by (auto simp: initializeDatabase_phases)

lemma initializeDatabase_twice:
  "initializeDatabase cfg (initializeDatabase cfg w) = initializeDatabase cfg w"
proof (rule initializeDatabase_noop)
  define w2 where "w2 = (if fst (CookieDB_getAll w) = [] \<and> DEFAULT_CTO_COOKIES cfg \<noteq> []
             then seedCookies (DEFAULT_CTO_COOKIES cfg) w else w)"
  have w': "initializeDatabase cfg w =
              (if fst (ApiKeyDB_getAll w2) = [] then seedApiKeys (DEFAULT_CHAT_APIKEYS cfg) w2 else w2)"
    by (simp only: initializeDatabase_phases Let_def w2_def)
  have c2: "fst (CookieDB_getAll w2) \<noteq> [] \<or> DEFAULT_CTO_COOKIES cfg = []"
  proof (cases "fst (CookieDB_getAll w) = [] \<and> DEFAULT_CTO_COOKIES cfg \<noteq> []")
    case True
    then show ?thesis by (simp add: w2_def seedCookies_nonempty)
  next
    case False
    then show ?thesis by (auto simp: w2_def)
  qed
  show "fst (CookieDB_getAll (initializeDatabase cfg w)) \<noteq> [] \<or> DEFAULT_CTO_COOKIES cfg = []"
  proof (cases "fst (ApiKeyDB_getAll w2) = []")
    case True
    then show ?thesis using c2 by (simp add: w' CookieDB_getAll_seedApiKeys)
  next
    case False
    then show ?thesis using c2 by (simp add: w')
  qed
  show "fst (ApiKeyDB_getAll (initializeDatabase cfg w)) \<noteq> [] \<or> DEFAULT_CHAT_APIKEYS cfg = []"
  proof (cases "fst (ApiKeyDB_getAll w2) = []")
    case True
    then show ?thesis
      by (cases "DEFAULT_CHAT_APIKEYS cfg = []") (simp_all add: w' seedApiKeys_nonempty)
  next
    case False
    then show ?thesis by (simp add: w')
  qed
qed

lemma initializeDatabase_writes:
  "\<exists>cs ks. writes (initializeDatabase cfg w) = writes w @ map cookieUpsert cs @ map apiKeyUpsert ks
     \<and> map c_value cs = (if fst (CookieDB_getAll w) = [] then DEFAULT_CTO_COOKIES cfg else [])
     \<and> (\<forall>c\<in>set cs. c_isDefault c \<and> c_isValid c \<and> c_failCount c = 0)
     \<and> map k_key ks = (if fst (ApiKeyDB_getAll w) = [] then DEFAULT_CHAT_APIKEYS cfg else [])
     \<and> (\<forall>k\<in>set ks. k_isDefault k \<and> k_isEnabled k \<and> k_requestCount k = 0)"
proof -
  let ?vs = "if fst (CookieDB_getAll w) = [] then DEFAULT_CTO_COOKIES cfg else []"
  let ?keys = "if fst (ApiKeyDB_getAll w) = [] then DEFAULT_CHAT_APIKEYS cfg else []"
  have eq: "initializeDatabase cfg w = seedApiKeys ?keys (seedCookies ?vs w)"
    by (auto simp: initializeDatabase_phases Let_def ApiKeyDB_getAll_seedCookies)
  from seedCookies_writes [of ?vs w] obtain cs where
    cs: "writes (seedCookies ?vs w) = writes w @ map cookieUpsert cs" "map c_value cs = ?vs"
      "\<forall>c\<in>set cs. c_isDefault c \<and> c_isValid c \<and> c_failCount c = 0"
    by blast
  from seedApiKeys_writes [of ?keys "seedCookies ?vs w"] obtain ks where
    ks: "writes (seedApiKeys ?keys (seedCookies ?vs w)) = writes (seedCookies ?vs w) @ map apiKeyUpsert ks"
      "map k_key ks = ?keys" "\<forall>k\<in>set ks. k_isDefault k \<and> k_isEnabled k \<and> k_requestCount k = 0"
    by blast
  have a: "writes (initializeDatabase cfg w) = writes w @ map cookieUpsert cs @ map apiKeyUpsert ks"
    unfolding eq ks(1) cs(1) by simp
  show ?thesis
    by (rule exI [of _ cs], rule exI [of _ ks]) (intro conjI a cs(2) cs(3) ks(2) ks(3))
qed

lemma seedCookies_sources [simp]:
  "uuid_src (seedCookies vs w) = uuid_src w"
  "uuid_n (seedCookies vs w) = uuid_n w + length vs"
proof -
  have "uuid_src (seedCookies vs w) = uuid_src w \<and> uuid_n (seedCookies vs w) = uuid_n w + length vs"
  proof (induction vs rule: rev_induct)
    case Nil
    show ?case by simp
  next
    case (snoc v vs)
    have "seedCookies (vs @ [v]) w =
            snd (CookieDB_add \<lparr>ci_value = v, ci_isValid = True, ci_failCount = 0, ci_isDefault = True\<rparr>
                   (seedCookies vs w))"
      by (simp add: seedCookies_def)
    then show ?case using snoc by (simp add: CookieDB_add_world)
  qed
  then show "uuid_src (seedCookies vs w) = uuid_src w"
    "uuid_n (seedCookies vs w) = uuid_n w + length vs" by simp_all
qed

lemma seedApiKeys_sources [simp]:
  "uuid_src (seedApiKeys ks w) = uuid_src w"
  "uuid_n (seedApiKeys ks w) = uuid_n w + length ks"
proof -
  have "uuid_src (seedApiKeys ks w) = uuid_src w \<and> uuid_n (seedApiKeys ks w) = uuid_n w + length ks"
  proof (induction ks rule: rev_induct)
    case Nil
    show ?case by simp
  next
    case (snoc k ks)
    have "seedApiKeys (ks @ [k]) w =
            snd (ApiKeyDB_add \<lparr>ki_key = k, ki_isEnabled = True, ki_isDefault = True\<rparr>
                   (seedApiKeys ks w))"
      by (simp add: seedApiKeys_def)
    then show ?case using snoc by (simp add: ApiKeyDB_add_world)
  qed
  then show "uuid_src (seedApiKeys ks w) = uuid_src w"
    "uuid_n (seedApiKeys ks w) = uuid_n w + length ks" by simp_all
qed

lemma cookie_key_inj:
  "makeKey (CookieDB_PREFIX @ [S a]) = makeKey (CookieDB_PREFIX @ [S b]) \<longleftrightarrow> a = b"
  by (simp add: makeKey_def CookieDB_PREFIX_def)

lemma apikey_key_inj:
  "makeKey (ApiKeyDB_PREFIX @ [S a]) = makeKey (ApiKeyDB_PREFIX @ [S b]) \<longleftrightarrow> a = b"
  by (simp add: makeKey_def ApiKeyDB_PREFIX_def)

lemma seedCookies_rows:
  assumes inj: "inj (uuid_src w)" and empty: "kvList CookieDB_PREFIX w = []"
  shows "\<exists>cs. kv_data (seedCookies vs w) = kv_data w @ map cookieRow cs
          \<and> map c_value cs = vs
          \<and> (\<forall>c\<in>set cs. c_isDefault c \<and> c_isValid c \<and> c_failCount c = 0)
          \<and> map c_id cs = map (\<lambda>i. uuid_src w (uuid_n w + i)) [0..<length vs]"
proof (induction vs rule: rev_induct)
  case Nil
  show ?case by simp
next
  case (snoc v vs)
  then obtain cs where cs: "kv_data (seedCookies vs w) = kv_data w @ map cookieRow cs"
    "map c_value cs = vs" "\<forall>c\<in>set cs. c_isDefault c \<and> c_isValid c \<and> c_failCount c = 0"
    "map c_id cs = map (\<lambda>i. uuid_src w (uuid_n w + i)) [0..<length vs]"
    by blast
  let ?W = "seedCookies vs w"
  let ?ci = "\<lparr>ci_value = v, ci_isValid = True, ci_failCount = 0, ci_isDefault = True\<rparr>"
  let ?c = "fst (CookieDB_add ?ci ?W)"
  have step: "seedCookies (vs @ [v]) w = snd (CookieDB_add ?ci ?W)"
    by (simp add: seedCookies_def)
  have cid: "c_id ?c = uuid_src w (uuid_n w + length vs)"
    by (simp add: CookieDB_add_fields)
  have "fst (cookieRow ?c) \<notin> fst ` set (kv_data w)"
  proof
    assume "fst (cookieRow ?c) \<in> fst ` set (kv_data w)"
    then obtain row where "row \<in> set (kv_data w)" "fst row = fst (cookieRow ?c)" by auto
    then have "row \<in> set (kvList CookieDB_PREFIX w)"
      using cookie_key_prefixes(1) [of "c_id ?c"] by (simp add: kvList_collection cookieRow_def)
    with empty show False by simp
  qed
  moreover have "fst (cookieRow ?c) \<notin> fst ` set (map cookieRow cs)"
  proof
    assume "fst (cookieRow ?c) \<in> fst ` set (map cookieRow cs)"
    then obtain c' where c': "c' \<in> set cs" "c_id c' = c_id ?c"
      by (auto simp: cookieRow_def cookie_key_inj)
    from c'(1) have "c_id c' \<in> set (map c_id cs)" by simp
    then obtain i where i: "i < length vs" "c_id c' = uuid_src w (uuid_n w + i)"
      unfolding cs(4) by auto
    with c'(2) cid have "uuid_src w (uuid_n w + i) = uuid_src w (uuid_n w + length vs)" by simp
    from injD [OF inj this] i(1) show False by simp
  qed
  ultimately have fresh: "fst (cookieRow ?c) \<notin> fst ` set (kv_data ?W)"
    by (simp add: cs(1) image_Un)
  have "kv_data (seedCookies (vs @ [v]) w) = upsert (fst (cookieRow ?c)) (snd (cookieRow ?c)) (kv_data ?W)"
    unfolding step by (subst CookieDB_add_world) (simp add: cookieRow_def)
  also have "\<dots> = kv_data ?W @ [cookieRow ?c]"
    using fresh by (simp add: upsert_fresh)
  finally have a: "kv_data (seedCookies (vs @ [v]) w) = kv_data w @ map cookieRow (cs @ [?c])"
    by (simp add: cs(1))
  have b: "map c_value (cs @ [?c]) = vs @ [v]"
    by (simp add: cs(2) CookieDB_add_fields)
  have c: "\<forall>c\<in>set (cs @ [?c]). c_isDefault c \<and> c_isValid c \<and> c_failCount c = 0"
    using cs(3) by (simp add: CookieDB_add_fields)
  have d: "map c_id (cs @ [?c]) = map (\<lambda>i. uuid_src w (uuid_n w + i)) [0..<length (vs @ [v])]"
    by (simp add: cs(4) cid)
  show ?case by (rule exI [of _ "cs @ [?c]"]) (intro conjI a b c d)
qed

lemma seedApiKeys_rows:
  assumes inj: "inj (uuid_src w)" and empty: "kvList ApiKeyDB_PREFIX w = []"
  shows "\<exists>ks. kv_data (seedApiKeys keys w) = kv_data w @ map apiKeyRow ks
          \<and> map k_key ks = keys
          \<and> (\<forall>k\<in>set ks. k_isDefault k \<and> k_isEnabled k \<and> k_requestCount k = 0)
          \<and> map k_id ks = map (\<lambda>i. uuid_src w (uuid_n w + i)) [0..<length keys]"
proof (induction keys rule: rev_induct)
  case Nil
  show ?case by simp
next
  case (snoc key keys)
  then obtain ks where ks: "kv_data (seedApiKeys keys w) = kv_data w @ map apiKeyRow ks"
    "map k_key ks = keys" "\<forall>k\<in>set ks. k_isDefault k \<and> k_isEnabled k \<and> k_requestCount k = 0"
    "map k_id ks = map (\<lambda>i. uuid_src w (uuid_n w + i)) [0..<length keys]"
    by blast
  let ?W = "seedApiKeys keys w"
  let ?ki = "\<lparr>ki_key = key, ki_isEnabled = True, ki_isDefault = True\<rparr>"
  let ?k = "fst (ApiKeyDB_add ?ki ?W)"
  have step: "seedApiKeys (keys @ [key]) w = snd (ApiKeyDB_add ?ki ?W)"
    by (simp add: seedApiKeys_def)
  have kid: "k_id ?k = uuid_src w (uuid_n w + length keys)"
    by (simp add: ApiKeyDB_add_fields)
  have "fst (apiKeyRow ?k) \<notin> fst ` set (kv_data w)"
  proof
    assume "fst (apiKeyRow ?k) \<in> fst ` set (kv_data w)"
    then obtain row where "row \<in> set (kv_data w)" "fst row = fst (apiKeyRow ?k)" by auto
    then have "row \<in> set (kvList ApiKeyDB_PREFIX w)"
      using apikey_key_prefixes(1) [of "k_id ?k"] by (simp add: kvList_collection apiKeyRow_def)
    with empty show False by simp
  qed
  moreover have "fst (apiKeyRow ?k) \<notin> fst ` set (map apiKeyRow ks)"
  proof
    assume "fst (apiKeyRow ?k) \<in> fst ` set (map apiKeyRow ks)"
    then obtain k' where k': "k' \<in> set ks" "k_id k' = k_id ?k"
      by (auto simp: apiKeyRow_def apikey_key_inj)
    from k'(1) have "k_id k' \<in> set (map k_id ks)" by simp
    then obtain i where i: "i < length keys" "k_id k' = uuid_src w (uuid_n w + i)"
      unfolding ks(4) by auto
    with k'(2) kid have "uuid_src w (uuid_n w + i) = uuid_src w (uuid_n w + length keys)" by simp
    from injD [OF inj this] i(1) show False by simp
  qed
  ultimately have fresh: "fst (apiKeyRow ?k) \<notin> fst ` set (kv_data ?W)"
    by (simp add: ks(1) image_Un)
  have "kv_data (seedApiKeys (keys @ [key]) w) = upsert (fst (apiKeyRow ?k)) (snd (apiKeyRow ?k)) (kv_data ?W)"
    unfolding step by (subst ApiKeyDB_add_world) (simp add: apiKeyRow_def)
  also have "\<dots> = kv_data ?W @ [apiKeyRow ?k]"
    using fresh by (simp add: upsert_fresh)
  finally have a: "kv_data (seedApiKeys (keys @ [key]) w) = kv_data w @ map apiKeyRow (ks @ [?k])"
    by (simp add: ks(1))
  have b: "map k_key (ks @ [?k]) = keys @ [key]"
    by (simp add: ks(2) ApiKeyDB_add_fields)
  have c: "\<forall>k\<in>set (ks @ [?k]). k_isDefault k \<and> k_isEnabled k \<and> k_requestCount k = 0"
    using ks(3) by (simp add: ApiKeyDB_add_fields)
  have d: "map k_id (ks @ [?k]) = map (\<lambda>i. uuid_src w (uuid_n w + i)) [0..<length (keys @ [key])]"
    by (simp add: ks(4) kid)
  show ?case by (rule exI [of _ "ks @ [?k]"]) (intro conjI a b c d)
qed

lemma seedCookies_getAll:
  assumes "inj (uuid_src w)" "kvList CookieDB_PREFIX w = []"
  shows "mset (map c_value (fst (CookieDB_getAll (seedCookies vs w)))) = mset vs
       \<and> (\<forall>c\<in>set (fst (CookieDB_getAll (seedCookies vs w))).
             c_isDefault c \<and> c_isValid c \<and> c_failCount c = 0)"
proof -
  from seedCookies_rows [OF assms, of vs] obtain cs where
    cs: "kv_data (seedCookies vs w) = kv_data w @ map cookieRow cs" "map c_value cs = vs"
      "\<forall>c\<in>set cs. c_isDefault c \<and> c_isValid c \<and> c_failCount c = 0"
    by blast
  have "filter (\<lambda>row. prefix (makeKey CookieDB_PREFIX) (fst row)) (map cookieRow cs) = map cookieRow cs"
    by (simp add: filter_id_conv cookieRow_def cookie_key_prefixes)
  then have "kvList CookieDB_PREFIX (seedCookies vs w) = map cookieRow cs"
    using assms(2) by (simp add: kvList_collection cs(1))
  moreover have "List.map_filter (\<lambda>item. asCookie (snd item)) (map cookieRow cs) = cs"
    by (induction cs) (simp_all add: cookieRow_def)
  ultimately have "fst (CookieDB_getAll (seedCookies vs w)) = sort_key c_createdAt cs"
    by (simp add: CookieDB_getAll_def Let_def)
  moreover have "mset (map c_value (sort_key c_createdAt cs)) = mset (map c_value cs)"
    by (metis mset_map mset_sort)
  ultimately show ?thesis using cs(2,3) by simp
qed

lemma seedApiKeys_getAll:
  assumes "inj (uuid_src w)" "kvList ApiKeyDB_PREFIX w = []"
  shows "mset (map k_key (fst (ApiKeyDB_getAll (seedApiKeys keys w)))) = mset keys
       \<and> (\<forall>k\<in>set (fst (ApiKeyDB_getAll (seedApiKeys keys w))).
             k_isDefault k \<and> k_isEnabled k \<and> k_requestCount k = 0)"
proof -
  from seedApiKeys_rows [OF assms, of keys] obtain ks where
    ks: "kv_data (seedApiKeys keys w) = kv_data w @ map apiKeyRow ks" "map k_key ks = keys"
      "\<forall>k\<in>set ks. k_isDefault k \<and> k_isEnabled k \<and> k_requestCount k = 0"
    by blast
  have "filter (\<lambda>row. prefix (makeKey ApiKeyDB_PREFIX) (fst row)) (map apiKeyRow ks) = map apiKeyRow ks"
    by (simp add: filter_id_conv apiKeyRow_def apikey_key_prefixes)
  then have "kvList ApiKeyDB_PREFIX (seedApiKeys keys w) = map apiKeyRow ks"
    using assms(2) by (simp add: kvList_collection ks(1))
  moreover have "List.map_filter (\<lambda>item. asApiKey (snd item)) (map apiKeyRow ks) = ks"
    by (induction ks) (simp_all add: apiKeyRow_def)
  ultimately have "fst (ApiKeyDB_getAll (seedApiKeys keys w)) = sort_key k_createdAt ks"
    by (simp add: ApiKeyDB_getAll_def Let_def)
  moreover have "mset (map k_key (sort_key k_createdAt ks)) = mset (map k_key ks)"
    by (metis mset_map mset_sort)
  ultimately show ?thesis using ks(2,3) by simp
qed

lemma initializeDatabase_seed:
  "initializeDatabase cfg w =
     seedApiKeys (if fst (ApiKeyDB_getAll w) = [] then DEFAULT_CHAT_APIKEYS cfg else [])
       (seedCookies (if fst (CookieDB_getAll w) = [] then DEFAULT_CTO_COOKIES cfg else []) w)"
  by (auto simp: initializeDatabase_phases Let_def ApiKeyDB_getAll_seedCookies)

lemma getAll_empty:
  "kvList CookieDB_PREFIX w = [] \<Longrightarrow> fst (CookieDB_getAll w) = []"
  "kvList ApiKeyDB_PREFIX w = [] \<Longrightarrow> fst (ApiKeyDB_getAll w) = []"
  by (simp_all add: CookieDB_getAll_def ApiKeyDB_getAll_def Let_def)

text \<open>
  Claim C7. When \<open>getAll()\<close> of the cookies and of the API keys both return an entry,
  whatever the entries are, \<open>initializeDatabase\<close> returns the world unchanged; running it a
  second time after itself changes nothing. In general its writes are exactly one upsert per
  default cookie value when the cookie list was empty, then one per default key when the key
  list was empty, each of an entity with that value, \<open>isDefault = true\<close>, valid or enabled,
  and counters 0. With ids that do not repeat and no row under the collection's prefix, the
  collection afterwards holds one such entry per default value.
\<close>

theorem bootstrap_idempotent:
  "(fst (CookieDB_getAll w) \<noteq> [] \<and> fst (ApiKeyDB_getAll w) \<noteq> [] \<longrightarrow>
      initializeDatabase cfg w = w)
   \<and> initializeDatabase cfg (initializeDatabase cfg w) = initializeDatabase cfg w
   \<and> (\<exists>cs ks.
         writes (initializeDatabase cfg w) = writes w @ map cookieUpsert cs @ map apiKeyUpsert ks
         \<and> map c_value cs = (if fst (CookieDB_getAll w) = [] then DEFAULT_CTO_COOKIES cfg else [])
         \<and> (\<forall>c\<in>set cs. c_isDefault c \<and> c_isValid c \<and> c_failCount c = 0)
         \<and> map k_key ks = (if fst (ApiKeyDB_getAll w) = [] then DEFAULT_CHAT_APIKEYS cfg else [])
         \<and> (\<forall>k\<in>set ks. k_isDefault k \<and> k_isEnabled k \<and> k_requestCount k = 0))
   \<and> (inj (uuid_src w) \<and> kvList CookieDB_PREFIX w = [] \<longrightarrow>
         mset (map c_value (fst (CookieDB_getAll (initializeDatabase cfg w))))
           = mset (DEFAULT_CTO_COOKIES cfg)
         \<and> (\<forall>c\<in>set (fst (CookieDB_getAll (initializeDatabase cfg w))).
               c_isDefault c \<and> c_isValid c \<and> c_failCount c = 0))
   \<and> (inj (uuid_src w) \<and> kvList ApiKeyDB_PREFIX w = [] \<longrightarrow>
         mset (map k_key (fst (ApiKeyDB_getAll (initializeDatabase cfg w))))
           = mset (DEFAULT_CHAT_APIKEYS cfg)
         \<and> (\<forall>k\<in>set (fst (ApiKeyDB_getAll (initializeDatabase cfg w))).
               k_isDefault k \<and> k_isEnabled k \<and> k_requestCount k = 0))"
proof (intro conjI impI)
  assume "fst (CookieDB_getAll w) \<noteq> [] \<and> fst (ApiKeyDB_getAll w) \<noteq> []"
  then show "initializeDatabase cfg w = w" by (simp add: initializeDatabase_noop)
next
  show "initializeDatabase cfg (initializeDatabase cfg w) = initializeDatabase cfg w"
    by (rule initializeDatabase_twice)
next
  show "\<exists>cs ks.
         writes (initializeDatabase cfg w) = writes w @ map cookieUpsert cs @ map apiKeyUpsert ks
         \<and> map c_value cs = (if fst (CookieDB_getAll w) = [] then DEFAULT_CTO_COOKIES cfg else [])
         \<and> (\<forall>c\<in>set cs. c_isDefault c \<and> c_isValid c \<and> c_failCount c = 0)
         \<and> map k_key ks = (if fst (ApiKeyDB_getAll w) = [] then DEFAULT_CHAT_APIKEYS cfg else [])
         \<and> (\<forall>k\<in>set ks. k_isDefault k \<and> k_isEnabled k \<and> k_requestCount k = 0)"
    by (rule initializeDatabase_writes)
next
  assume h: "inj (uuid_src w) \<and> kvList CookieDB_PREFIX w = []"
  then have "fst (CookieDB_getAll (initializeDatabase cfg w))
               = fst (CookieDB_getAll (seedCookies (DEFAULT_CTO_COOKIES cfg) w))"
    by (simp add: initializeDatabase_seed [of cfg w] getAll_empty CookieDB_getAll_seedApiKeys)
  with seedCookies_getAll [of w "DEFAULT_CTO_COOKIES cfg"] h
  show "mset (map c_value (fst (CookieDB_getAll (initializeDatabase cfg w))))
           = mset (DEFAULT_CTO_COOKIES cfg)"
    and "\<forall>c\<in>set (fst (CookieDB_getAll (initializeDatabase cfg w))).
               c_isDefault c \<and> c_isValid c \<and> c_failCount c = 0"
    by simp_all
next
  let ?w2 = "seedCookies (if fst (CookieDB_getAll w) = [] then DEFAULT_CTO_COOKIES cfg else []) w"
  assume h: "inj (uuid_src w) \<and> kvList ApiKeyDB_PREFIX w = []"
  then have eq: "initializeDatabase cfg w = seedApiKeys (DEFAULT_CHAT_APIKEYS cfg) ?w2"
    by (simp add: initializeDatabase_seed [of cfg w] getAll_empty)
  have "inj (uuid_src ?w2)" "kvList ApiKeyDB_PREFIX ?w2 = []"
    using h by (simp_all add: kvList_seedCookies)
  from seedApiKeys_getAll [OF this, of "DEFAULT_CHAT_APIKEYS cfg"]
  show "mset (map k_key (fst (ApiKeyDB_getAll (initializeDatabase cfg w))))
           = mset (DEFAULT_CHAT_APIKEYS cfg)"
    and "\<forall>k\<in>set (fst (ApiKeyDB_getAll (initializeDatabase cfg w))).
               k_isDefault k \<and> k_isEnabled k \<and> k_requestCount k = 0"
    unfolding eq by simp_all
qed

lemma sample_uuid_inj: "inj (uuid_src (sample_world rows))"
  by (auto simp: sample_world_def sample_uuid_def inj_def dest: digits_inj)

lemma sample_getAll_cookies:
  "fst (CookieDB_getAll (sample_world sample_rows)) =
     [sample_cookie ''a'' False, sample_cookie ''d'' True]"
  unfolding CookieDB_getAll_def kvList_collection
  by (simp add: List.map_filter_def sample_simps)

theorem bootstrap_idempotent_witness:
  "fst (CookieDB_getAll (sample_world sample_rows)) \<noteq> []
   \<and> fst (ApiKeyDB_getAll (sample_world sample_rows)) \<noteq> []
   \<and> initializeDatabase sample_config (sample_world sample_rows) = sample_world sample_rows
   \<and> inj (uuid_src (sample_world []))
   \<and> kvList CookieDB_PREFIX (sample_world []) = []
   \<and> kvList ApiKeyDB_PREFIX (sample_world []) = []
   \<and> mset (map c_value (fst (CookieDB_getAll (initializeDatabase sample_config (sample_world [])))))
       = mset [''ck1'', ''ck2'']
   \<and> mset (map k_key (fst (ApiKeyDB_getAll (initializeDatabase sample_config (sample_world [])))))
       = mset [''sk1'']"
proof -
  note t1 = bootstrap_idempotent [of "sample_world sample_rows" sample_config]
  note t2 = bootstrap_idempotent [of "sample_world []" sample_config]
  have a: "fst (CookieDB_getAll (sample_world sample_rows)) \<noteq> []"
    "fst (ApiKeyDB_getAll (sample_world sample_rows)) \<noteq> []"
    by (simp_all add: sample_getAll_cookies sample_getAll_keys)
  with t1 have b: "initializeDatabase sample_config (sample_world sample_rows) = sample_world sample_rows"
    by blast
  have e: "kvList CookieDB_PREFIX (sample_world []) = []" "kvList ApiKeyDB_PREFIX (sample_world []) = []"
    by (simp_all add: kvList_collection sample_world_def)
  have d: "DEFAULT_CTO_COOKIES sample_config = [''ck1'', ''ck2'']"
    "DEFAULT_CHAT_APIKEYS sample_config = [''sk1'']"
    by (simp_all add: sample_config_def)
  from t2 sample_uuid_inj [of "[]"] e
  have "mset (map c_value (fst (CookieDB_getAll (initializeDatabase sample_config (sample_world [])))))
          = mset (DEFAULT_CTO_COOKIES sample_config)"
    and "mset (map k_key (fst (ApiKeyDB_getAll (initializeDatabase sample_config (sample_world [])))))
          = mset (DEFAULT_CHAT_APIKEYS sample_config)"
    by blast+
  with a b e sample_uuid_inj [of "[]"] show ?thesis unfolding d by blast
qed

section \<open>Worlds reached by calls of the module\<close>

lemma logsInv_same_rows: "kv_data w' = kv_data w \<Longrightarrow> logsInv w' = logsInv w"
  by (simp add: logsInv_def)

lemma logsInv_kvSet_other:
  assumes "logsInv w" "\<not> prefix ''logs'' (makeKey key)"
  shows "logsInv (kvSet key v w)"
proof -
  have "distinct (map fst (kv_data (kvSet key v w)))"
    using assms(1) by (simp add: logsInv_def kvSet_def Let_def map_fst_upsert)
  moreover have "\<forall>row\<in>set (kv_data (kvSet key v w)). prefix ''logs'' (fst row) \<longrightarrow> logRow row"
    using assms set_upsert_subset [of "makeKey key" v "kv_data w"]
    by (auto simp: logsInv_def list_all_iff kvSet_def Let_def)
  ultimately show ?thesis by (simp add: logsInv_def list_all_iff)
qed

lemma logsInv_kvDelete: "logsInv w \<Longrightarrow> logsInv (kvDelete key w)"
  by (rule logsInv_filter [where P = "\<lambda>row. fst row \<noteq> makeKey key"]) (simp_all add: kv_data_kvDelete)

lemma logsInv_Date_now [simp]: "logsInv (snd (Date_now w)) = logsInv w"
  by (rule logsInv_same_rows) (simp add: Date_now_def)

lemma logsInv_randomUUID [simp]: "logsInv (snd (randomUUID w)) = logsInv w"
  by (rule logsInv_same_rows) (simp add: randomUUID_def)

lemma other_keys_not_logs:
  "\<not> prefix ''logs'' (makeKey (CookieDB_PREFIX @ [S u]))"
  "\<not> prefix ''logs'' (makeKey (ApiKeyDB_PREFIX @ [S u]))"
  "\<not> prefix ''logs'' (makeKey SystemSettingsDB_KEY)"
  "\<not> prefix ''logs'' (makeKey ModelMappingDB_KEY)"
  by (simp_all add: makeKey_def CookieDB_PREFIX_def ApiKeyDB_PREFIX_def SystemSettingsDB_KEY_def
      ModelMappingDB_KEY_def)

lemma logsInv_CookieDB_add: "logsInv w \<Longrightarrow> logsInv (snd (CookieDB_add c w))"
  by (simp add: CookieDB_add_def randomUUID_def Date_now_def Let_def)
     (rule logsInv_kvSet_other, simp_all add: logsInv_def other_keys_not_logs)

lemma logsInv_CookieDB_update: "logsInv w \<Longrightarrow> logsInv (snd (CookieDB_update cid p w))"
proof (cases "fst (CookieDB_get cid w)")
  case None
  assume "logsInv w"
  moreover from None have "CookieDB_get cid w = (None, w)" by (simp add: CookieDB_get_def)
  ultimately show ?thesis by (simp add: CookieDB_update_def)
next
  case (Some c)
  assume "logsInv w"
  then show ?thesis
    by (simp add: CookieDB_update_Some [OF Some] logsInv_kvSet_other other_keys_not_logs)
qed

lemma logsInv_CookieDB_delete: "logsInv w \<Longrightarrow> logsInv (snd (CookieDB_delete cid w))"
  by (auto simp: CookieDB_delete_def CookieDB_get_def logsInv_kvDelete split: option.splits)

lemma logsInv_CookieDB_incrementFailCount:
  "logsInv w \<Longrightarrow> logsInv (CookieDB_incrementFailCount cfg cid w)"
  by (auto simp: CookieDB_incrementFailCount_def CookieDB_get_def Let_def logsInv_CookieDB_update
      split: option.splits)

lemma logsInv_ApiKeyDB_add: "logsInv w \<Longrightarrow> logsInv (snd (ApiKeyDB_add k w))"
  by (simp add: ApiKeyDB_add_def randomUUID_def Date_now_def Let_def)
     (rule logsInv_kvSet_other, simp_all add: logsInv_def other_keys_not_logs)

lemma logsInv_ApiKeyDB_update: "logsInv w \<Longrightarrow> logsInv (snd (ApiKeyDB_update kid p w))"
  by (auto simp: ApiKeyDB_update_def ApiKeyDB_get_def Let_def logsInv_kvSet_other other_keys_not_logs
      split: option.splits)

lemma logsInv_ApiKeyDB_delete: "logsInv w \<Longrightarrow> logsInv (snd (ApiKeyDB_delete kid w))"
  by (auto simp: ApiKeyDB_delete_def ApiKeyDB_get_def logsInv_kvDelete split: option.splits)

lemma logsInv_ApiKeyDB_incrementRequestCount:
  "logsInv w \<Longrightarrow> logsInv (ApiKeyDB_incrementRequestCount key w)"
proof -
  assume inv: "logsInv w"
  have "ApiKeyDB_getByKey key w = (fst (ApiKeyDB_getByKey key w), w)"
    by (cases "ApiKeyDB_getAll w") (simp add: ApiKeyDB_getByKey_def ApiKeyDB_getAll_def Let_def)
  then show ?thesis
    using inv
    by (cases "fst (ApiKeyDB_getByKey key w)")
       (simp_all add: ApiKeyDB_incrementRequestCount_def logsInv_ApiKeyDB_update split: prod.splits)
qed

lemma logsInv_SystemSettingsDB_update:
  "logsInv w \<Longrightarrow> logsInv (snd (SystemSettingsDB_update cfg s w))"
  by (auto simp: SystemSettingsDB_update_def SystemSettingsDB_get_def Let_def logsInv_kvSet_other
      other_keys_not_logs split: option.splits)

lemma logsInv_seedCookies: "logsInv w \<Longrightarrow> logsInv (seedCookies vs w)"
  by (induction vs arbitrary: w) (simp_all add: seedCookies_def logsInv_CookieDB_add)

lemma logsInv_seedApiKeys: "logsInv w \<Longrightarrow> logsInv (seedApiKeys ks w)"
  by (induction ks arbitrary: w) (simp_all add: seedApiKeys_def logsInv_ApiKeyDB_add)

lemma logsInv_exec: "logsInv w \<Longrightarrow> logsInv (exec cfg c w)"
proof (cases c)
  case (Call_RequestLogDB_add l)
  assume "logsInv w"
  then show ?thesis by (simp add: Call_RequestLogDB_add add_inv_count(1))
next
  case Call_initializeDatabase
  assume "logsInv w"
  then show ?thesis
    by (simp add: Call_initializeDatabase initializeDatabase_seed logsInv_seedCookies logsInv_seedApiKeys)
next
  case (Call_ModelMappingDB_update ms)
  assume "logsInv w"
  then show ?thesis
    by (simp add: Call_ModelMappingDB_update ModelMappingDB_update_def logsInv_kvSet_other
        other_keys_not_logs)
qed (simp_all add: logsInv_CookieDB_add logsInv_CookieDB_update logsInv_CookieDB_delete
      logsInv_CookieDB_incrementFailCount CookieDB_resetFailCount_def logsInv_ApiKeyDB_add
      logsInv_ApiKeyDB_update logsInv_ApiKeyDB_delete logsInv_ApiKeyDB_incrementRequestCount
      logsInv_SystemSettingsDB_update)

lemma logsInv_reachable:
  assumes "kv_data w = []"
  shows "logsInv (fold (exec cfg) calls w)"
proof (induction calls rule: rev_induct)
  case Nil
  show ?case using assms by (simp add: logsInv_def)
next
  case (snoc c calls)
  then show ?case by (simp add: logsInv_exec)
qed

text \<open>
  Claim C1. Every world reached from the empty table by calls of the module is well keyed, as
  is a table with one row per key and no log, and \<open>add\<close> keeps a well-keyed table well
  keyed. After \<open>add\<close> on a well-keyed table, and so after every sequence of appends from
  one, at most \<open>MAX_REQUEST_RECORD_NUM\<close> logs are stored. With the cap 2 and no log stored,
  appending logs with timestamps \<open>t1 < t2 < t3\<close> leaves exactly two stored logs, those of
  \<open>t2\<close> and \<open>t3\<close> (\<open>getRecent\<close> returns them, newest first), and nothing can be read at
  the key of the log of \<open>t1\<close>.
\<close>

theorem retention_cap:
  "(kv_data w = [] \<longrightarrow> logsInv (fold (exec cfg) calls w))
   \<and> (distinct (map fst (kv_data w)) \<and> kvList RequestLogDB_PREFIX w = [] \<longrightarrow> logsInv w)
   \<and> (logsInv w \<longrightarrow>
        logsInv (RequestLogDB_add cfg a w)
        \<and> fst (RequestLogDB_count (RequestLogDB_add cfg a w)) \<le> MAX_REQUEST_RECORD_NUM cfg
        \<and> (as \<noteq> [] \<longrightarrow>
             fst (RequestLogDB_count (fold (RequestLogDB_add cfg) as w))
               \<le> MAX_REQUEST_RECORD_NUM cfg))
   \<and> (MAX_REQUEST_RECORD_NUM cfg = 2 \<and> kvList RequestLogDB_PREFIX w = []
        \<and> li_timestamp a1 < li_timestamp a2 \<and> li_timestamp a2 < li_timestamp a3 \<longrightarrow>
        map snd (kvList RequestLogDB_PREFIX
                   (RequestLogDB_add cfg a3 (RequestLogDB_add cfg a2 (RequestLogDB_add cfg a1 w))))
          = [VLog (withId a2 (uuid_src w (uuid_n w + 1))),
             VLog (withId a3 (uuid_src w (uuid_n w + 2)))]
        \<and> fst (RequestLogDB_count
                  (RequestLogDB_add cfg a3 (RequestLogDB_add cfg a2 (RequestLogDB_add cfg a1 w))))
            = 2
        \<and> fst (RequestLogDB_getRecent cfg None
                  (RequestLogDB_add cfg a3 (RequestLogDB_add cfg a2 (RequestLogDB_add cfg a1 w))))
            = [withId a3 (uuid_src w (uuid_n w + 2)), withId a2 (uuid_src w (uuid_n w + 1))]
        \<and> kvGet (RequestLogDB_PREFIX @ [N (li_timestamp a1), S (uuid_src w (uuid_n w))])
              (RequestLogDB_add cfg a3 (RequestLogDB_add cfg a2 (RequestLogDB_add cfg a1 w)))
            = None)"
proof (intro conjI impI)
  assume "kv_data w = []"
  then show "logsInv (fold (exec cfg) calls w)" by (rule logsInv_reachable)
next
  assume "distinct (map fst (kv_data w)) \<and> kvList RequestLogDB_PREFIX w = []"
  then show "logsInv w" by (simp add: empty_logs_inv)
next
  assume inv: "logsInv w"
  show "logsInv (RequestLogDB_add cfg a w)" by (rule add_inv_count(1) [OF inv])
  show "fst (RequestLogDB_count (RequestLogDB_add cfg a w)) \<le> MAX_REQUEST_RECORD_NUM cfg"
    by (rule add_inv_count(2) [OF inv])
  assume "as \<noteq> []"
  with fold_add_inv_count [OF inv, of cfg as]
  show "fst (RequestLogDB_count (fold (RequestLogDB_add cfg) as w)) \<le> MAX_REQUEST_RECORD_NUM cfg"
    by simp
next
  let ?w3 = "RequestLogDB_add cfg a3 (RequestLogDB_add cfg a2 (RequestLogDB_add cfg a1 w))"
  let ?l1 = "withId a1 (uuid_src w (uuid_n w))"
  let ?l2 = "withId a2 (uuid_src w (Suc (uuid_n w)))"
  let ?l3 = "withId a3 (uuid_src w (Suc (Suc (uuid_n w))))"
  assume h: "MAX_REQUEST_RECORD_NUM cfg = 2 \<and> kvList RequestLogDB_PREFIX w = []
        \<and> li_timestamp a1 < li_timestamp a2 \<and> li_timestamp a2 < li_timestamp a3"
  then have rows: "kv_data ?w3 = kv_data w @ [(logKey ?l2, VLog ?l2), (logKey ?l3, VLog ?l3)]"
    by (simp add: three_appends_rows)
  from h have none: "filter (\<lambda>row. prefix ''logs'' (fst row)) (kv_data w) = []"
    by (simp add: kvList_collection)
  then have fresh: "filter (\<lambda>row. fst row = logKey l) (kv_data w) = []" for l
    using logKey_prefix [of l] by (auto simp: filter_empty_conv)
  have list: "kvList RequestLogDB_PREFIX ?w3 = [(logKey ?l2, VLog ?l2), (logKey ?l3, VLog ?l3)]"
    by (simp add: kvList_collection rows none logKey_prefix)
  show "map snd (kvList RequestLogDB_PREFIX ?w3)
          = [VLog (withId a2 (uuid_src w (uuid_n w + 1))),
             VLog (withId a3 (uuid_src w (uuid_n w + 2)))]"
    by (simp add: list)
  show "fst (RequestLogDB_count ?w3) = 2"
    by (simp add: RequestLogDB_count_def list)
  show "fst (RequestLogDB_getRecent cfg None ?w3)
          = [withId a3 (uuid_src w (uuid_n w + 2)), withId a2 (uuid_src w (uuid_n w + 1))]"
    using h by (simp add: RequestLogDB_getRecent_def list withId_def)
  have "logKey ?l1 \<noteq> logKey ?l2" "logKey ?l1 \<noteq> logKey ?l3"
    using h by (auto simp: logKey_inj withId_def)
  moreover have "makeKey (RequestLogDB_PREFIX @ [N (li_timestamp a1), S (uuid_src w (uuid_n w))])
                   = logKey ?l1"
    by (simp add: logKey_def withId_def)
  ultimately show "kvGet (RequestLogDB_PREFIX @ [N (li_timestamp a1), S (uuid_src w (uuid_n w))]) ?w3
                     = None"
    by (simp add: kvGet_def rows fresh) 
qed

lemma sample_no_logs: "kvList RequestLogDB_PREFIX (sample_world sample_rows) = []"
  by (simp add: kvList_collection sample_rows_def sample_world_def)

lemma sample_distinct: "distinct (map fst (kv_data (sample_world sample_rows)))"
  by (simp add: sample_rows_def sample_world_def)

theorem retention_cap_witness:
  "distinct (map fst (kv_data (sample_world sample_rows)))
   \<and> kvList RequestLogDB_PREFIX (sample_world sample_rows) = []
   \<and> logsInv (sample_world sample_rows)
   \<and> MAX_REQUEST_RECORD_NUM sample_config = 2
   \<and> li_timestamp (sample_log 10) < li_timestamp (sample_log 20)
   \<and> li_timestamp (sample_log 20) < li_timestamp (sample_log 30)
   \<and> fst (RequestLogDB_count (RequestLogDB_add sample_config (sample_log 30)
        (RequestLogDB_add sample_config (sample_log 20)
          (RequestLogDB_add sample_config (sample_log 10) (sample_world sample_rows))))) = 2
   \<and> fst (RequestLogDB_getRecent sample_config None (RequestLogDB_add sample_config (sample_log 30)
        (RequestLogDB_add sample_config (sample_log 20)
          (RequestLogDB_add sample_config (sample_log 10) (sample_world sample_rows)))))
       = [withId (sample_log 30) (sample_uuid 2), withId (sample_log 20) (sample_uuid 1)]
   \<and> fst (RequestLogDB_count (fold (RequestLogDB_add sample_config) [sample_log 5, sample_log 7]
        (sample_world sample_rows))) \<le> 2
   \<and> kv_data (sample_world []) = []
   \<and> logsInv (fold (exec sample_config)
        [Call_initializeDatabase, Call_RequestLogDB_add (sample_log 5), Call_CookieDB_delete ''a'']
        (sample_world []))"
proof -
  note t = retention_cap [of "sample_world sample_rows" sample_config _ "sample_log 10"
      "[sample_log 5, sample_log 7]" "sample_log 10" "sample_log 20" "sample_log 30"]
  have k: "kv_data (sample_world []) = []" by (simp add: sample_world_def)
  with retention_cap [of "sample_world []" sample_config
      "[Call_initializeDatabase, Call_RequestLogDB_add (sample_log 5), Call_CookieDB_delete ''a'']"]
  have r: "logsInv (fold (exec sample_config)
        [Call_initializeDatabase, Call_RequestLogDB_add (sample_log 5), Call_CookieDB_delete ''a'']
        (sample_world []))"
    by blast
  have cap: "MAX_REQUEST_RECORD_NUM sample_config = 2" by (simp add: sample_config_def)
  have lt: "li_timestamp (sample_log 10) < li_timestamp (sample_log 20)"
    "li_timestamp (sample_log 20) < li_timestamp (sample_log 30)"
    by (simp_all add: sample_log_def)
  have u: "uuid_src (sample_world sample_rows) = sample_uuid" "uuid_n (sample_world sample_rows) = 0"
    by (simp_all add: sample_world_def)
  from t sample_distinct sample_no_logs have inv: "logsInv (sample_world sample_rows)" by blast
  from t inv have c1: "fst (RequestLogDB_count (fold (RequestLogDB_add sample_config)
        [sample_log 5, sample_log 7] (sample_world sample_rows))) \<le> 2"
    unfolding cap by blast
  from t cap sample_no_logs lt
  have c2: "fst (RequestLogDB_count (RequestLogDB_add sample_config (sample_log 30)
        (RequestLogDB_add sample_config (sample_log 20)
          (RequestLogDB_add sample_config (sample_log 10) (sample_world sample_rows))))) = 2"
    and c3: "fst (RequestLogDB_getRecent sample_config None (RequestLogDB_add sample_config (sample_log 30)
        (RequestLogDB_add sample_config (sample_log 20)
          (RequestLogDB_add sample_config (sample_log 10) (sample_world sample_rows)))))
       = [withId (sample_log 30) (uuid_src (sample_world sample_rows) (uuid_n (sample_world sample_rows) + 2)),
          withId (sample_log 20) (uuid_src (sample_world sample_rows) (uuid_n (sample_world sample_rows) + 1))]"
    by blast+
  from c3 have c3': "fst (RequestLogDB_getRecent sample_config None (RequestLogDB_add sample_config (sample_log 30)
        (RequestLogDB_add sample_config (sample_log 20)
          (RequestLogDB_add sample_config (sample_log 10) (sample_world sample_rows)))))
       = [withId (sample_log 30) (sample_uuid 2), withId (sample_log 20) (sample_uuid 1)]"
    by (simp add: u numeral_2_eq_2)
  from sample_distinct sample_no_logs inv cap lt c1 c2 c3' k r show ?thesis by blast
qed

end
